theory Spec2Isabelle
  imports Main "HOL-Library.Word"
begin

section \<open>The collaboration relay of \<^verbatim>\<open>yjs-websocket-server.ts\<close>\<close>

text \<open>
  The server keeps module-level maps (\<^verbatim>\<open>docs\<close>, \<^verbatim>\<open>connections\<close>, \<^verbatim>\<open>heartbeats\<close>,
  \<^verbatim>\<open>updateBuffers\<close>, \<^verbatim>\<open>flushTimers\<close>, \<^verbatim>\<open>awarenessBuffers\<close>,
  \<^verbatim>\<open>awarenessFlushTimers\<close>) and registers four listeners per socket. Every listener
  is a closure over the socket, the room name, the \<^verbatim>\<open>Y.Doc\<close> object and the \<^verbatim>\<open>Set\<close> object
  that were current at admission. The model therefore keeps the \<^verbatim>\<open>Y.Doc\<close> and \<^verbatim>\<open>Set\<close>
  objects in an explicit store addressed by references, so that a listener keeps acting
  on the object it captured even when the map no longer points at it.

  Each handler is a function from the state to the list of externally visible actions
  it performs (in program order) and the new state.
\<close>

subsection \<open>Values\<close>

type_synonym conn = nat
type_synonym bytes = "8 word list"
type_synonym ref = nat
type_synonym timer = nat

definition messageSync :: nat where "messageSync = 0"
definition messageAwareness :: nat where "messageAwareness = 1"
definition FLUSH_INTERVAL :: nat where "FLUSH_INTERVAL = 50"
definition AWARENESS_FLUSH_INTERVAL :: nat where "AWARENESS_FLUSH_INTERVAL = 100"
definition HEARTBEAT_INTERVAL :: nat where "HEARTBEAT_INTERVAL = 30000"

text \<open>\<^verbatim>\<open>readyState\<close> of a socket: 0 CONNECTING, 1 OPEN, 2 CLOSING, 3 CLOSED.\<close>

definition CONNECTING :: nat where "CONNECTING = 0"
definition OPEN :: nat where "OPEN = 1"

record decoder =
  arr :: bytes
  pos :: nat

definition createDecoder :: "bytes \<Rightarrow> decoder" where
  "createDecoder uint8Array = \<lparr>arr = uint8Array, pos = 0\<rparr>"

text \<open>
  The packages \<^verbatim>\<open>lib0\<close>, \<^verbatim>\<open>y-protocols\<close> and \<^verbatim>\<open>yjs\<close> are not part of the repository;
  the calls the server makes into them are parameters of the model, together with the
  \<^verbatim>\<open>DEBUG\<close> flag that the module reads from the process environment. A call that throws
  returns \<open>None\<close>; a throwing document-engine call is taken to leave the document
  object as it was. Writers return the bytes they append to the encoder.
\<close>

record 'd library =
  DEBUG :: bool
  newDoc :: 'd
  readVarUint :: "decoder \<Rightarrow> (nat \<times> decoder) option"
  readVarUint8Array :: "decoder \<Rightarrow> (bytes \<times> decoder) option"
  writeVarUint :: "nat \<Rightarrow> bytes"
  writeSyncStep1 :: "'d \<Rightarrow> bytes"
  writeSyncStep2 :: "'d \<Rightarrow> bytes \<Rightarrow> bytes option"
  readSyncStep2 :: "decoder \<Rightarrow> 'd \<Rightarrow> 'd option"
  readUpdate :: "decoder \<Rightarrow> 'd \<Rightarrow> 'd option"

datatype payload = Binary bytes | Text string

text \<open>
  Every \<^verbatim>\<open>send\<close> is recorded with the call site that issued it: the admission
  handshake, the reply to a sync frame, the update flush, the awareness flush, or the
  error notice of the \<^verbatim>\<open>catch\<close> block.
\<close>

datatype origin = Handshake | SyncReply | UpdateBroadcast | AwarenessBroadcast | ErrorNotice

datatype action =
    Send origin conn payload
  | Close conn nat string
  | Ping conn
  | ConsoleLog string
  | ConsoleWarn string
  | ConsoleError string

subsection \<open>State\<close>

datatype callback = FlushUpdates string | FlushAwareness string | Heartbeat conn

record task =
  tid :: timer
  due :: nat
  period :: "nat option"
  run :: callback

record closure =
  roomName :: string
  doc :: ref
  roomConnections :: ref

record 'd server =
  docs :: "string \<rightharpoonup> ref"
  connections :: "string \<rightharpoonup> ref"
  heartbeats :: "conn \<rightharpoonup> timer"
  updateBuffers :: "string \<rightharpoonup> (conn \<times> bytes) list"
  flushTimers :: "string \<rightharpoonup> timer"
  awarenessBuffers :: "string \<rightharpoonup> (conn \<times> bytes) list"
  awarenessFlushTimers :: "string \<rightharpoonup> timer"
  ydoc :: "ref \<Rightarrow> 'd"
  members :: "ref \<Rightarrow> conn list"
  next_ref :: ref
  listeners :: "conn \<rightharpoonup> closure"
  readyState :: "conn \<Rightarrow> nat"
  tasks :: "task list"
  next_timer :: timer
  now :: nat

text \<open>
  A JavaScript \<^verbatim>\<open>Set\<close> iterates in insertion order, so the members of a \<^verbatim>\<open>Set\<close> object
  are a list without repetition.
\<close>

definition set_add :: "'a \<Rightarrow> 'a list \<Rightarrow> 'a list" where
  "set_add x xs = (if x \<in> set xs then xs else xs @ [x])"

definition set_delete :: "'a \<Rightarrow> 'a list \<Rightarrow> 'a list" where
  "set_delete x xs = filter (\<lambda>y. y \<noteq> x) xs"

text \<open>
  A JavaScript \<^verbatim>\<open>Map\<close> that is iterated is an association list ordered by the first
  insertion of each key. \<open>map_push\<close> is the \<^verbatim>\<open>has\<close>/\<^verbatim>\<open>set\<close>/\<^verbatim>\<open>get(...).push\<close> sequence
  of \<^verbatim>\<open>flushUpdateBuffer\<close>, \<open>map_set\<close> is \<^verbatim>\<open>Map.set\<close>.
\<close>

fun map_push :: "'k \<Rightarrow> 'v \<Rightarrow> ('k \<times> 'v list) list \<Rightarrow> ('k \<times> 'v list) list" where
  "map_push k v [] = [(k, [v])]"
| "map_push k v ((k', vs) # rest) =
     (if k' = k then (k', vs @ [v]) # rest else (k', vs) # map_push k v rest)"

fun map_set :: "'k \<Rightarrow> 'v \<Rightarrow> ('k \<times> 'v) list \<Rightarrow> ('k \<times> 'v) list" where
  "map_set k v [] = [(k, v)]"
| "map_set k v ((k', v') # rest) =
     (if k' = k then (k', v) # rest else (k', v') # map_set k v rest)"

subsection \<open>Timers of the runtime\<close>

definition setTimeout :: "callback \<Rightarrow> nat \<Rightarrow> 'd server \<Rightarrow> timer \<times> 'd server" where
  "setTimeout cb delay s =
     (next_timer s,
      s\<lparr>tasks := tasks s @ [\<lparr>tid = next_timer s, due = now s + delay, period = None, run = cb\<rparr>],
        next_timer := Suc (next_timer s)\<rparr>)"

definition setInterval :: "callback \<Rightarrow> nat \<Rightarrow> 'd server \<Rightarrow> timer \<times> 'd server" where
  "setInterval cb delay s =
     (next_timer s,
      s\<lparr>tasks := tasks s @ [\<lparr>tid = next_timer s, due = now s + delay, period = Some delay, run = cb\<rparr>],
        next_timer := Suc (next_timer s)\<rparr>)"

definition clearTimeout :: "timer \<Rightarrow> 'd server \<Rightarrow> 'd server" where
  "clearTimeout t s = s\<lparr>tasks := filter (\<lambda>k. tid k \<noteq> t) (tasks s)\<rparr>"

definition clearInterval :: "timer \<Rightarrow> 'd server \<Rightarrow> 'd server" where
  "clearInterval t s = clearTimeout t s"

text \<open>
  \<^verbatim>\<open>send\<close> of the \<^verbatim>\<open>ws\<close> package throws synchronously only while the socket is still
  connecting; every other failure is reported to the callback later.
\<close>

definition send_throws :: "nat \<Rightarrow> bool" where
  "send_throws state = (state = CONNECTING)"

subsection \<open>\<^verbatim>\<open>flushUpdateBuffer\<close> and \<^verbatim>\<open>flushAwarenessBuffer\<close>\<close>

definition clientMessages :: "(conn \<Rightarrow> nat) \<Rightarrow> (conn \<times> bytes) list \<Rightarrow> (conn \<times> bytes list) list" where
  "clientMessages rs buffer =
     foldl (\<lambda>cm (client, message). if rs client = 1 then map_push client message cm else cm) [] buffer"

definition send_messages :: "conn \<times> bytes list \<Rightarrow> action list" where
  "send_messages e =
     (case e of (client, messages) \<Rightarrow>
        if length messages = 1 then [Send UpdateBroadcast client (Binary (messages ! 0))]
        else map (\<lambda>msg. Send UpdateBroadcast client (Binary msg)) messages)"

definition flushUpdateBuffer :: "'d library \<Rightarrow> string \<Rightarrow> 'd server \<Rightarrow> action list \<times> 'd server" where
  "flushUpdateBuffer E room s =
     (case updateBuffers s room of
        None \<Rightarrow> ([], s)
      | Some buffer \<Rightarrow>
          if length buffer = 0 then ([], s)
          else
            (concat (map send_messages (clientMessages (readyState s) buffer))
               @ (if DEBUG E then [ConsoleLog ''Flushed updates''] else []),
             s\<lparr>updateBuffers := (updateBuffers s)(room \<mapsto> [])\<rparr>))"

definition latestByClient :: "(conn \<Rightarrow> nat) \<Rightarrow> (conn \<times> bytes) list \<Rightarrow> (conn \<times> bytes) list" where
  "latestByClient rs buffer =
     foldl (\<lambda>lm (client, message). if rs client = 1 then map_set client message lm else lm) [] buffer"

definition flushAwarenessBuffer :: "'d library \<Rightarrow> string \<Rightarrow> 'd server \<Rightarrow> action list \<times> 'd server" where
  "flushAwarenessBuffer E room s =
     (case awarenessBuffers s room of
        None \<Rightarrow> ([], s)
      | Some buffer \<Rightarrow>
          if length buffer = 0 then ([], s)
          else
            (map (\<lambda>(client, message). Send AwarenessBroadcast client (Binary message))
                 (latestByClient (readyState s) buffer)
               @ (if DEBUG E then [ConsoleLog ''Flushed awareness updates''] else []),
             s\<lparr>awarenessBuffers := (awarenessBuffers s)(room \<mapsto> [])\<rparr>))"

subsection \<open>The \<^verbatim>\<open>connection\<close> listener\<close>

text \<open>
  The request URL is parsed by the platform; the handler is modelled from the resulting
  \<^verbatim>\<open>pathname\<close>, a string of ASCII characters. \<open>roomMatch\<close> is
  \<^verbatim>\<open>pathname.match(/^\/(.+)$/)\<close>: a slash followed by at least one character, none of
  which is a line terminator (the dot does not match one, and \<^verbatim>\<open>$\<close> without the
  multi-line flag only matches at the end of the input).
\<close>

definition line_terminator :: "char \<Rightarrow> bool" where
  "line_terminator c = (c = CHR 0x0A \<or> c = CHR 0x0D)"

definition roomMatch :: "string \<Rightarrow> string option" where
  "roomMatch pathname =
     (case pathname of
        [] \<Rightarrow> None
      | c # rest \<Rightarrow>
          if c = CHR ''/'' \<and> rest \<noteq> [] \<and> \<not> list_ex line_terminator rest then Some rest else None)"

definition getOrCreateDoc :: "'d library \<Rightarrow> string \<Rightarrow> 'd server \<Rightarrow> ref \<times> 'd server" where
  "getOrCreateDoc E room s =
     (case docs s room of
        Some d \<Rightarrow> (d, s)
      | None \<Rightarrow>
          (next_ref s,
           s\<lparr>docs := (docs s)(room \<mapsto> next_ref s),
             ydoc := (ydoc s)(next_ref s := newDoc E),
             next_ref := Suc (next_ref s)\<rparr>))"

definition getOrCreateConnections :: "string \<Rightarrow> 'd server \<Rightarrow> ref \<times> 'd server" where
  "getOrCreateConnections room s =
     (case connections s room of
        Some c \<Rightarrow> (c, s)
      | None \<Rightarrow>
          (next_ref s,
           s\<lparr>connections := (connections s)(room \<mapsto> next_ref s),
             members := (members s)(next_ref s := []),
             next_ref := Suc (next_ref s)\<rparr>))"

definition connection_handler :: "'d library \<Rightarrow> conn \<Rightarrow> string \<Rightarrow> 'd server \<Rightarrow> action list \<times> 'd server" where
  "connection_handler E ws pathname s =
     (case roomMatch pathname of
        None \<Rightarrow> ([Close ws 1008 ''Invalid room path''], s)
      | Some room \<Rightarrow>
          (case getOrCreateDoc E room s of (d, s1) \<Rightarrow>
           case getOrCreateConnections room s1 of (rc, s2) \<Rightarrow>
           case setInterval (Heartbeat ws) HEARTBEAT_INTERVAL
                  (s2\<lparr>members := (members s2)(rc := set_add ws (members s2 rc))\<rparr>) of (heartbeat, s3) \<Rightarrow>
             let s4 = s3\<lparr>heartbeats := (heartbeats s3)(ws \<mapsto> heartbeat),
                        listeners := (listeners s3)(ws \<mapsto> \<lparr>roomName = room, doc = d, roomConnections = rc\<rparr>)\<rparr>;
                 encoder = writeVarUint E messageSync @ writeSyncStep1 E (ydoc s4 d)
             in ((if DEBUG E then [ConsoleLog ''Yjs WebSocket connection for room''] else [])
                   @ (if send_throws (readyState s4 ws)
                      then [ConsoleError ''Error sending sync step 1 to room'']
                      else [Send Handshake ws (Binary encoder)]),
                 s4)))"

subsection \<open>The \<^verbatim>\<open>message\<close> listener\<close>

definition processing_failed :: "conn \<Rightarrow> 'd server \<Rightarrow> action list \<times> 'd server" where
  "processing_failed ws s =
     (ConsoleError ''Error processing Yjs message:''
        # (if send_throws (readyState s ws)
           then [ConsoleError ''Failed to send error message:'']
           else [Send ErrorNotice ws (Text ''{\"error\":\"Message processing failed\"}'')]),
      s)"

definition enqueue :: "conn \<Rightarrow> bytes \<Rightarrow> conn list \<Rightarrow> (conn \<Rightarrow> nat) \<Rightarrow> (conn \<times> bytes) list \<Rightarrow> (conn \<times> bytes) list" where
  "enqueue ws message clients rs buffer =
     foldl (\<lambda>b client. if client \<noteq> ws \<and> rs client = 1 then b @ [(client, message)] else b) buffer clients"

definition buffer_update :: "conn \<Rightarrow> closure \<Rightarrow> bytes \<Rightarrow> 'd server \<Rightarrow> 'd server" where
  "buffer_update ws cl message s =
     (let room = roomName cl;
          s1 = (if updateBuffers s room = None
                then s\<lparr>updateBuffers := (updateBuffers s)(room \<mapsto> [])\<rparr> else s);
          buffer = (case updateBuffers s1 room of Some b \<Rightarrow> b | None \<Rightarrow> []);
          s2 = s1\<lparr>updateBuffers := (updateBuffers s1)
                     (room \<mapsto> enqueue ws message (members s1 (roomConnections cl)) (readyState s1) buffer)\<rparr>;
          s3 = (case flushTimers s2 room of Some t \<Rightarrow> clearTimeout t s2 | None \<Rightarrow> s2)
      in case setTimeout (FlushUpdates room) FLUSH_INTERVAL s3 of (t, s4) \<Rightarrow>
           s4\<lparr>flushTimers := (flushTimers s4)(room \<mapsto> t)\<rparr>)"

definition buffer_awareness :: "conn \<Rightarrow> closure \<Rightarrow> bytes \<Rightarrow> 'd server \<Rightarrow> 'd server" where
  "buffer_awareness ws cl message s =
     (let room = roomName cl;
          s1 = (if awarenessBuffers s room = None
                then s\<lparr>awarenessBuffers := (awarenessBuffers s)(room \<mapsto> [])\<rparr> else s);
          awarenessBuffer = (case awarenessBuffers s1 room of Some b \<Rightarrow> b | None \<Rightarrow> []);
          s2 = s1\<lparr>awarenessBuffers := (awarenessBuffers s1)
                     (room \<mapsto> enqueue ws message (members s1 (roomConnections cl)) (readyState s1) awarenessBuffer)\<rparr>;
          s3 = (case awarenessFlushTimers s2 room of Some t \<Rightarrow> clearTimeout t s2 | None \<Rightarrow> s2)
      in case setTimeout (FlushAwareness room) AWARENESS_FLUSH_INTERVAL s3 of (t, s4) \<Rightarrow>
           s4\<lparr>awarenessFlushTimers := (awarenessFlushTimers s4)(room \<mapsto> t)\<rparr>)"

text \<open>
  The first half of the \<^verbatim>\<open>messageSync\<close> case: the three \<^verbatim>\<open>if\<close> branches that call the
  sync protocol. The result is the contents of \<^verbatim>\<open>syncEncoder\<close> and the state, or \<open>None\<close>
  when a call throws.
\<close>

definition sync_step :: "'d library \<Rightarrow> closure \<Rightarrow> nat \<Rightarrow> decoder \<Rightarrow> 'd server \<Rightarrow> (bytes \<times> 'd server) option" where
  "sync_step E cl syncMessageType dec s =
     (let syncEncoder = writeVarUint E messageSync in
      if syncMessageType = 0 then
        (case readVarUint8Array E dec of
           None \<Rightarrow> None
         | Some (sv, dec') \<Rightarrow>
             (case writeSyncStep2 E (ydoc s (doc cl)) sv of
                None \<Rightarrow> None
              | Some written \<Rightarrow> Some (syncEncoder @ written, s)))
      else if syncMessageType = 1 then
        (case readSyncStep2 E dec (ydoc s (doc cl)) of
           None \<Rightarrow> None
         | Some d' \<Rightarrow> Some (syncEncoder, s\<lparr>ydoc := (ydoc s)(doc cl := d')\<rparr>))
      else if syncMessageType = 2 then
        (case readUpdate E dec (ydoc s (doc cl)) of
           None \<Rightarrow> None
         | Some d' \<Rightarrow> Some (syncEncoder, s\<lparr>ydoc := (ydoc s)(doc cl := d')\<rparr>))
      else Some (syncEncoder, s))"

definition message_handler :: "'d library \<Rightarrow> conn \<Rightarrow> closure \<Rightarrow> bytes \<Rightarrow> 'd server \<Rightarrow> action list \<times> 'd server" where
  "message_handler E ws cl message s =
     (case readVarUint E (createDecoder message) of
        None \<Rightarrow> processing_failed ws s
      | Some (messageType, dec) \<Rightarrow>
          if messageType = messageSync then
            (case readVarUint E dec of
               None \<Rightarrow> processing_failed ws s
             | Some (syncMessageType, dec') \<Rightarrow>
                 (case sync_step E cl syncMessageType dec' s of
                    None \<Rightarrow> processing_failed ws s
                  | Some (syncMessage, s1) \<Rightarrow>
                      if syncMessageType = 2 then ([], buffer_update ws cl message s1)
                      else if length syncMessage > 1 then
                        (if send_throws (readyState s1 ws)
                         then [ConsoleError ''Error sending sync message in room'']
                         else [Send SyncReply ws (Binary syncMessage)], s1)
                      else ([], s1)))
          else if messageType = messageAwareness then ([], buffer_awareness ws cl message s)
          else ([ConsoleWarn ''Unknown message type:''], s))"

subsection \<open>The \<^verbatim>\<open>close\<close> and \<^verbatim>\<open>error\<close> listeners\<close>

definition drop_connection :: "conn \<Rightarrow> closure \<Rightarrow> 'd server \<Rightarrow> 'd server" where
  "drop_connection ws cl s =
     (let s1 = s\<lparr>members := (members s)(roomConnections cl := set_delete ws (members s (roomConnections cl)))\<rparr>
      in case heartbeats s1 ws of
           None \<Rightarrow> s1
         | Some heartbeat \<Rightarrow> (clearInterval heartbeat s1)\<lparr>heartbeats := (heartbeats s1)(ws := None)\<rparr>)"

definition cleanup_room :: "string \<Rightarrow> 'd server \<Rightarrow> 'd server" where
  "cleanup_room room s =
     (let s1 = (case flushTimers s room of
                  None \<Rightarrow> s
                | Some flushTimer \<Rightarrow> (clearTimeout flushTimer s)\<lparr>flushTimers := (flushTimers s)(room := None)\<rparr>);
          s2 = (case awarenessFlushTimers s1 room of
                  None \<Rightarrow> s1
                | Some awarenessTimer \<Rightarrow>
                    (clearTimeout awarenessTimer s1)\<lparr>awarenessFlushTimers := (awarenessFlushTimers s1)(room := None)\<rparr>)
      in s2\<lparr>updateBuffers := (updateBuffers s2)(room := None),
            awarenessBuffers := (awarenessBuffers s2)(room := None),
            connections := (connections s2)(room := None),
            docs := (docs s2)(room := None)\<rparr>)"

definition close_handler :: "'d library \<Rightarrow> conn \<Rightarrow> closure \<Rightarrow> 'd server \<Rightarrow> action list \<times> 'd server" where
  "close_handler E ws cl s =
     (let s1 = drop_connection ws cl s in
      if length (members s1 (roomConnections cl)) = 0
      then ((if DEBUG E then [ConsoleLog ''Yjs WebSocket disconnected from room'',
                              ConsoleLog ''Cleaned up empty room and buffers''] else []),
            cleanup_room (roomName cl) s1)
      else ((if DEBUG E then [ConsoleLog ''Yjs WebSocket disconnected from room''] else []), s1))"

definition error_handler :: "'d library \<Rightarrow> conn \<Rightarrow> closure \<Rightarrow> 'd server \<Rightarrow> action list \<times> 'd server" where
  "error_handler E ws cl s = ([ConsoleError ''WebSocket error:''], drop_connection ws cl s)"

text \<open>Dispatch of an event to the listeners registered on the socket at admission.\<close>

definition emit_message :: "'d library \<Rightarrow> conn \<Rightarrow> bytes \<Rightarrow> 'd server \<Rightarrow> action list \<times> 'd server" where
  "emit_message E ws message s =
     (case listeners s ws of None \<Rightarrow> ([], s) | Some cl \<Rightarrow> message_handler E ws cl message s)"

definition emit_close :: "'d library \<Rightarrow> conn \<Rightarrow> 'd server \<Rightarrow> action list \<times> 'd server" where
  "emit_close E ws s =
     (case listeners s ws of None \<Rightarrow> ([], s) | Some cl \<Rightarrow> close_handler E ws cl s)"

definition emit_error :: "'d library \<Rightarrow> conn \<Rightarrow> 'd server \<Rightarrow> action list \<times> 'd server" where
  "emit_error E ws s =
     (case listeners s ws of None \<Rightarrow> ([], s) | Some cl \<Rightarrow> error_handler E ws cl s)"

subsection \<open>Timer callbacks and the passage of time\<close>

definition update_timeout :: "'d library \<Rightarrow> string \<Rightarrow> 'd server \<Rightarrow> action list \<times> 'd server" where
  "update_timeout E room s =
     (case flushUpdateBuffer E room s of (acts, s1) \<Rightarrow>
        (acts, s1\<lparr>flushTimers := (flushTimers s1)(room := None)\<rparr>))"

definition awareness_timeout :: "'d library \<Rightarrow> string \<Rightarrow> 'd server \<Rightarrow> action list \<times> 'd server" where
  "awareness_timeout E room s =
     (case flushAwarenessBuffer E room s of (acts, s1) \<Rightarrow>
        (acts, s1\<lparr>awarenessFlushTimers := (awarenessFlushTimers s1)(room := None)\<rparr>))"

definition heartbeat_tick :: "conn \<Rightarrow> timer \<Rightarrow> 'd server \<Rightarrow> action list \<times> 'd server" where
  "heartbeat_tick ws heartbeat s =
     (if readyState s ws = 1 then ([Ping ws], s)
      else ([], (clearInterval heartbeat s)\<lparr>heartbeats := (heartbeats s)(ws := None)\<rparr>))"

definition run_callback :: "'d library \<Rightarrow> task \<Rightarrow> 'd server \<Rightarrow> action list \<times> 'd server" where
  "run_callback E k s =
     (case run k of
        FlushUpdates room \<Rightarrow> update_timeout E room s
      | FlushAwareness room \<Rightarrow> awareness_timeout E room s
      | Heartbeat ws \<Rightarrow> heartbeat_tick ws (tid k) s)"

text \<open>
  The runtime's timer queue on a clock that counts milliseconds. A task that is still
  pending when its turn comes is run: a timeout leaves the queue first, an interval is
  re-armed one period later. \<open>elapse n\<close> lets \<open>n\<close> milliseconds pass with no other
  event, running at each millisecond the tasks that are due, in queue order. The result
  lists the callbacks that ran, each with the actions it performed.
\<close>

definition fire :: "'d library \<Rightarrow> task \<Rightarrow> 'd server \<Rightarrow> (callback \<times> action list) list \<times> 'd server" where
  "fire E k s =
     (if list_ex (\<lambda>j. tid j = tid k) (tasks s)
      then
        (let s1 = (case period k of
                     None \<Rightarrow> clearTimeout (tid k) s
                   | Some p \<Rightarrow> s\<lparr>tasks := map (\<lambda>j. if tid j = tid k then j\<lparr>due := due j + p\<rparr> else j) (tasks s)\<rparr>)
         in case run_callback E k s1 of (acts, s2) \<Rightarrow> ([(run k, acts)], s2))
      else ([], s))"

fun fire_all :: "'d library \<Rightarrow> task list \<Rightarrow> 'd server \<Rightarrow> (callback \<times> action list) list \<times> 'd server" where
  "fire_all E [] s = ([], s)"
| "fire_all E (k # ks) s =
     (case fire E k s of (f1, s1) \<Rightarrow>
      case fire_all E ks s1 of (f2, s2) \<Rightarrow> (f1 @ f2, s2))"

definition run_due :: "'d library \<Rightarrow> 'd server \<Rightarrow> (callback \<times> action list) list \<times> 'd server" where
  "run_due E s = fire_all E (filter (\<lambda>k. due k \<le> now s) (tasks s)) s"

fun elapse :: "'d library \<Rightarrow> nat \<Rightarrow> 'd server \<Rightarrow> (callback \<times> action list) list \<times> 'd server" where
  "elapse E 0 s = ([], s)"
| "elapse E (Suc n) s =
     (case run_due E (s\<lparr>now := Suc (now s)\<rparr>) of (f1, s1) \<Rightarrow>
      case elapse E n s1 of (f2, s2) \<Rightarrow> (f1 @ f2, s2))"

subsection \<open>The earlier server: immediate broadcast\<close>

text \<open>
  The earlier version of the file sends an update to the peers inside the
  \<^verbatim>\<open>message\<close> listener. A peer whose \<^verbatim>\<open>send\<close> throws is deleted from the \<^verbatim>\<open>Set\<close>
  during the iteration; the send callback deletes a peer that failed and is no longer open.
\<close>

definition broadcast_old :: "origin \<Rightarrow> conn \<Rightarrow> closure \<Rightarrow> bytes \<Rightarrow> 'd server \<Rightarrow> action list \<times> 'd server" where
  "broadcast_old og ws cl message s =
     foldl (\<lambda>(acts, s') client.
              if client \<noteq> ws \<and> readyState s' client = 1 then
                (if send_throws (readyState s' client)
                 then (acts @ [ConsoleError (if og = AwarenessBroadcast
                                             then ''Error broadcasting awareness in room''
                                             else ''Error broadcasting to client in room'')],
                       s'\<lparr>members := (members s')(roomConnections cl :=
                                          set_delete client (members s' (roomConnections cl)))\<rparr>)
                 else (acts @ [Send og client (Binary message)], s'))
              else (acts, s'))
           ([], s) (members s (roomConnections cl))"

definition update_callback_old :: "closure \<Rightarrow> conn \<Rightarrow> bool \<Rightarrow> 'd server \<Rightarrow> action list \<times> 'd server" where
  "update_callback_old cl client error s =
     (if error then
        (if readyState s client \<noteq> 1
         then ([ConsoleError ''Failed to broadcast update in room'',
                ConsoleLog ''Removed failed connection from room''],
               s\<lparr>members := (members s)(roomConnections cl :=
                                 set_delete client (members s (roomConnections cl)))\<rparr>)
         else ([ConsoleError ''Failed to broadcast update in room''], s))
      else ([], s))"

definition message_handler_old :: "'d library \<Rightarrow> conn \<Rightarrow> closure \<Rightarrow> bytes \<Rightarrow> 'd server \<Rightarrow> action list \<times> 'd server" where
  "message_handler_old E ws cl message s =
     (case readVarUint E (createDecoder message) of
        None \<Rightarrow> processing_failed ws s
      | Some (messageType, dec) \<Rightarrow>
          if messageType = messageSync then
            (case readVarUint E dec of
               None \<Rightarrow> processing_failed ws s
             | Some (syncMessageType, dec') \<Rightarrow>
                 (case sync_step E cl syncMessageType dec' s of
                    None \<Rightarrow> processing_failed ws s
                  | Some (syncMessage, s1) \<Rightarrow>
                      if syncMessageType = 2 then broadcast_old UpdateBroadcast ws cl message s1
                      else if length syncMessage > 1 then
                        (if send_throws (readyState s1 ws)
                         then [ConsoleError ''Error sending sync message in room'']
                         else [Send SyncReply ws (Binary syncMessage)], s1)
                      else ([], s1)))
          else if messageType = messageAwareness then broadcast_old AwarenessBroadcast ws cl message s
          else ([ConsoleWarn ''Unknown message type:''], s))"

subsection \<open>Runs of one room\<close>

text \<open>
  The events of a run inside one room, whose listeners share the closure \<open>cl\<close>: an
  inbound frame from a socket, the update flush timer coming due, and the completion
  callback of an update send (with or without an error).
\<close>

datatype event = Frame conn bytes | UpdateFlushDue | SendDone conn bool

definition update_callback :: "bool \<Rightarrow> 'd server \<Rightarrow> action list \<times> 'd server" where
  "update_callback error s =
     (if error then ([ConsoleError ''Failed to send update in room''], s) else ([], s))"

definition step_batched :: "'d library \<Rightarrow> closure \<Rightarrow> event \<Rightarrow> 'd server \<Rightarrow> action list \<times> 'd server" where
  "step_batched E cl e s =
     (case e of
        Frame ws message \<Rightarrow> message_handler E ws cl message s
      | UpdateFlushDue \<Rightarrow> update_timeout E (roomName cl) s
      | SendDone client error \<Rightarrow> update_callback error s)"

definition step_immediate :: "'d library \<Rightarrow> closure \<Rightarrow> event \<Rightarrow> 'd server \<Rightarrow> action list \<times> 'd server" where
  "step_immediate E cl e s =
     (case e of
        Frame ws message \<Rightarrow> message_handler_old E ws cl message s
      | UpdateFlushDue \<Rightarrow> ([], s)
      | SendDone client error \<Rightarrow> update_callback_old cl client error s)"

fun run_events :: "(event \<Rightarrow> 'd server \<Rightarrow> action list \<times> 'd server) \<Rightarrow> event list \<Rightarrow> 'd server \<Rightarrow> action list \<times> 'd server" where
  "run_events step [] s = ([], s)"
| "run_events step (e # es) s =
     (case step e s of (a1, s1) \<Rightarrow>
      case run_events step es s1 of (a2, s2) \<Rightarrow> (a1 @ a2, s2))"

subsection \<open>Notions used to state the properties\<close>

text \<open>The messages a buffer holds for one destination, in buffer order.\<close>

definition for_dest :: "conn \<Rightarrow> (conn \<times> bytes) list \<Rightarrow> bytes list" where
  "for_dest d buffer = map snd (filter (\<lambda>e. fst e = d) buffer)"

text \<open>The open destinations of a buffer, in the order of their first entry.\<close>

definition destinations :: "(conn \<Rightarrow> nat) \<Rightarrow> (conn \<times> bytes) list \<Rightarrow> conn list" where
  "destinations rs buffer =
     foldl (\<lambda>ks (client, message). if rs client = 1 then set_add client ks else ks) [] buffer"

text \<open>The payloads that a list of actions sends to one destination from one call site.\<close>

definition delivered :: "origin \<Rightarrow> conn \<Rightarrow> action list \<Rightarrow> payload list" where
  "delivered og d acts =
     concat (map (\<lambda>a. case a of Send og' c p \<Rightarrow> if og' = og \<and> c = d then [p] else [] | _ \<Rightarrow> []) acts)"

definition is_send :: "action \<Rightarrow> bool" where
  "is_send a = (case a of Send og c p \<Rightarrow> True | _ \<Rightarrow> False)"

definition pending_updates :: "'d server \<Rightarrow> string \<Rightarrow> (conn \<times> bytes) list" where
  "pending_updates s room = (case updateBuffers s room of None \<Rightarrow> [] | Some b \<Rightarrow> b)"

definition pending_awareness :: "'d server \<Rightarrow> string \<Rightarrow> (conn \<times> bytes) list" where
  "pending_awareness s room = (case awarenessBuffers s room of None \<Rightarrow> [] | Some b \<Rightarrow> b)"

text \<open>The pending tasks that would flush the update buffer of a room.\<close>

definition armed :: "string \<Rightarrow> 'd server \<Rightarrow> task list" where
  "armed room s = filter (\<lambda>k. run k = FlushUpdates room) (tasks s)"

definition flushes :: "string \<Rightarrow> (callback \<times> action list) list \<Rightarrow> (callback \<times> action list) list" where
  "flushes room fired = filter (\<lambda>f. fst f = FlushUpdates room) fired"


text \<open>
  The path shape the specification names: \<^verbatim>\<open>/<roomId>\<close>, one non-empty segment with
  no further slash.
\<close>

definition single_segment :: "string \<Rightarrow> bool" where
  "single_segment pathname =
     (case pathname of
        [] \<Rightarrow> False
      | c # seg \<Rightarrow> c = CHR ''/'' \<and> seg \<noteq> [] \<and> CHR ''/'' \<notin> set seg)"



text \<open>
  The peers an inbound frame from \<open>ws\<close> is queued for: the members of the captured
  \<^verbatim>\<open>Set\<close> other than \<open>ws\<close> that are open.
\<close>

definition peers :: "conn \<Rightarrow> closure \<Rightarrow> 'd server \<Rightarrow> conn list" where
  "peers ws cl s = filter (\<lambda>c. c \<noteq> ws \<and> readyState s c = 1) (members s (roomConnections cl))"

text \<open>
  Well-formedness of the timer queue with respect to a room: timer identifiers are
  unique and were handed out earlier, also the one recorded in \<^verbatim>\<open>flushTimers\<close>, and a
  pending update flush of the room is a timeout and the one recorded in \<^verbatim>\<open>flushTimers\<close>.
\<close>

definition recorded_before :: "timer option \<Rightarrow> timer \<Rightarrow> bool" where
  "recorded_before t n = (case t of None \<Rightarrow> True | Some i \<Rightarrow> i < n)"

definition timers_ok :: "string \<Rightarrow> 'd server \<Rightarrow> bool" where
  "timers_ok room s =
     (distinct (map tid (tasks s))
      \<and> list_all (\<lambda>k. tid k < next_timer s) (tasks s)
      \<and> recorded_before (flushTimers s room) (next_timer s)
      \<and> list_all (\<lambda>k. flushTimers s room = Some (tid k) \<and> period k = None) (armed room s))"

text \<open>
  A frame that the listener accepts as an update: kind \<^verbatim>\<open>messageSync\<close>, sub-kind 2, and
  the document engine applies the payload.
\<close>

definition is_update :: "'d library \<Rightarrow> closure \<Rightarrow> bytes \<Rightarrow> 'd server \<Rightarrow> bool" where
  "is_update E cl message s =
     (case readVarUint E (createDecoder message) of
        None \<Rightarrow> False
      | Some (messageType, dec) \<Rightarrow>
          messageType = messageSync \<and>
          (case readVarUint E dec of
             None \<Rightarrow> False
           | Some (syncMessageType, dec') \<Rightarrow>
               syncMessageType = 2 \<and> readUpdate E dec' (ydoc s (doc cl)) \<noteq> None))"

text \<open>
  A burst of frames in one room: each frame arrives from a socket of the room and is
  followed by a pause of so many milliseconds in which nothing else happens. \<open>typing\<close>
  runs the burst and lists the timer callbacks that ran; \<open>queued\<close> lists the buffer
  entries the frames of the burst append; \<open>rapid_updates\<close> says that every frame of the
  burst is accepted as an update and every pause is shorter than \<^verbatim>\<open>FLUSH_INTERVAL\<close>.
\<close>

fun typing :: "'d library \<Rightarrow> closure \<Rightarrow> (conn \<times> bytes \<times> nat) list \<Rightarrow> 'd server
    \<Rightarrow> (callback \<times> action list) list \<times> 'd server" where
  "typing E cl [] s = ([], s)"
| "typing E cl ((ws, message, pause) # rest) s =
     (case elapse E pause (snd (message_handler E ws cl message s)) of (f1, s1) \<Rightarrow>
      case typing E cl rest s1 of (f2, s2) \<Rightarrow> (f1 @ f2, s2))"

fun queued :: "'d library \<Rightarrow> closure \<Rightarrow> (conn \<times> bytes \<times> nat) list \<Rightarrow> 'd server \<Rightarrow> (conn \<times> bytes) list" where
  "queued E cl [] s = []"
| "queued E cl ((ws, message, pause) # rest) s =
     map (\<lambda>c. (c, message)) (peers ws cl s)
       @ queued E cl rest (snd (elapse E pause (snd (message_handler E ws cl message s))))"

fun rapid_updates :: "'d library \<Rightarrow> closure \<Rightarrow> (conn \<times> bytes \<times> nat) list \<Rightarrow> 'd server \<Rightarrow> bool" where
  "rapid_updates E cl [] s = True"
| "rapid_updates E cl ((ws, message, pause) # rest) s =
     (is_update E cl message s \<and> pause < FLUSH_INTERVAL
      \<and> rapid_updates E cl rest (snd (elapse E pause (snd (message_handler E ws cl message s)))))"

text \<open>
  The outcome of an admission: the room has a document and a \<^verbatim>\<open>Set\<close>, the socket is a
  member of that \<^verbatim>\<open>Set\<close>, its listeners are closed over them, its heartbeat is
  registered, and the socket was not closed.
\<close>

definition admitted :: "conn \<Rightarrow> string \<Rightarrow> action list \<times> 'd server \<Rightarrow> bool" where
  "admitted ws room r =
     (case r of (acts, s') \<Rightarrow>
        (case (docs s' room, connections s' room) of
           (Some d, Some rc) \<Rightarrow>
              ws \<in> set (members s' rc)
              \<and> listeners s' ws = Some \<lparr>roomName = room, doc = d, roomConnections = rc\<rparr>
              \<and> heartbeats s' ws \<noteq> None
         | _ \<Rightarrow> False)
        \<and> \<not> list_ex (\<lambda>a. case a of Close c code reason \<Rightarrow> True | _ \<Rightarrow> False) acts)"

text \<open>Nothing of a room is left in any of the module-level maps.\<close>

definition released :: "string \<Rightarrow> 'd server \<Rightarrow> bool" where
  "released room s =
     (docs s room = None \<and> connections s room = None
      \<and> updateBuffers s room = None \<and> awarenessBuffers s room = None
      \<and> flushTimers s room = None \<and> awarenessFlushTimers s room = None)"

text \<open>A recorded timer is no longer in the timer queue.\<close>

definition cancelled :: "timer option \<Rightarrow> 'd server \<Rightarrow> bool" where
  "cancelled t s = (case t of None \<Rightarrow> True | Some i \<Rightarrow> \<not> list_ex (\<lambda>k. tid k = i) (tasks s))"

text \<open>
  What the sync protocol branch computes from the value of the document: the contents
  of the encoder and the new document value.
\<close>

definition sync_result :: "'d library \<Rightarrow> nat \<Rightarrow> decoder \<Rightarrow> 'd \<Rightarrow> (bytes \<times> 'd) option" where
  "sync_result E syncMessageType dec d =
     (if syncMessageType = 0 then
        (case readVarUint8Array E dec of
           None \<Rightarrow> None
         | Some (sv, dec') \<Rightarrow>
             (case writeSyncStep2 E d sv of
                None \<Rightarrow> None
              | Some written \<Rightarrow> Some (writeVarUint E messageSync @ written, d)))
      else if syncMessageType = 1 then
        (case readSyncStep2 E dec d of None \<Rightarrow> None | Some d' \<Rightarrow> Some (writeVarUint E messageSync, d'))
      else if syncMessageType = 2 then
        (case readUpdate E dec d of None \<Rightarrow> None | Some d' \<Rightarrow> Some (writeVarUint E messageSync, d'))
      else Some (writeVarUint E messageSync, d))"

text \<open>Every member of the room's \<^verbatim>\<open>Set\<close> is open; every buffered update is for an open socket.\<close>

definition all_open :: "closure \<Rightarrow> 'd server \<Rightarrow> bool" where
  "all_open cl s = list_all (\<lambda>c. readyState s c = 1) (members s (roomConnections cl))"

definition pending_open :: "closure \<Rightarrow> 'd server \<Rightarrow> bool" where
  "pending_open cl s = list_all (\<lambda>e. readyState s (fst e) = 1) (pending_updates s (roomName cl))"

text \<open>
  Two states, one of each server, agree on the room: same document value, same members,
  same socket states. \<open>step_ok\<close> relates the results of one event in the two servers:
  the states still agree, and for a destination the updates the batched server has
  sent or still buffers are those buffered before followed by what the immediate
  server sent.
\<close>

definition same_room :: "closure \<Rightarrow> 'd server \<Rightarrow> 'd server \<Rightarrow> bool" where
  "same_room cl so sn =
     (ydoc so (doc cl) = ydoc sn (doc cl)
      \<and> members so (roomConnections cl) = members sn (roomConnections cl)
      \<and> readyState so = readyState sn)"

definition related :: "closure \<Rightarrow> 'd server \<Rightarrow> 'd server \<Rightarrow> bool" where
  "related cl so sn = (same_room cl so sn \<and> all_open cl sn \<and> pending_open cl sn)"

definition step_ok :: "closure \<Rightarrow> conn \<Rightarrow> 'd server \<Rightarrow> action list \<times> 'd server \<Rightarrow> action list \<times> 'd server \<Rightarrow> bool" where
  "step_ok cl d sn ro rn =
     (related cl (snd ro) (snd rn)
      \<and> delivered UpdateBroadcast d (fst rn)
            @ map Binary (for_dest d (pending_updates (snd rn) (roomName cl)))
          = map Binary (for_dest d (pending_updates sn (roomName cl)))
            @ delivered UpdateBroadcast d (fst ro))"

text \<open>
  Relations between a state and a later one, as far as the update flush of a room is
  concerned. \<open>untouched\<close>: the room's update buffer, its recorded flush timer and its
  pending flush tasks are the same, as are the socket states, the clock, the documents
  and the connection sets. \<open>waited n\<close>: the same, with the clock advanced by \<open>n\<close>.
  \<open>flushed\<close>: no update is buffered and no flush is pending or recorded, and the queue is
  well formed. \<open>dequeued\<close> is the first half of \<open>fire\<close>: the task leaves the queue or is
  re-armed.
\<close>

definition untouched :: "string \<Rightarrow> 'd server \<Rightarrow> 'd server \<Rightarrow> bool" where
  "untouched room s s' =
     (updateBuffers s' room = updateBuffers s room \<and> flushTimers s' room = flushTimers s room
      \<and> armed room s' = armed room s \<and> readyState s' = readyState s \<and> now s' = now s
      \<and> ydoc s' = ydoc s \<and> members s' = members s)"

definition waited :: "string \<Rightarrow> nat \<Rightarrow> 'd server \<Rightarrow> 'd server \<Rightarrow> bool" where
  "waited room n s s' =
     (updateBuffers s' room = updateBuffers s room \<and> flushTimers s' room = flushTimers s room
      \<and> armed room s' = armed room s \<and> readyState s' = readyState s \<and> now s' = now s + n
      \<and> ydoc s' = ydoc s \<and> members s' = members s)"

definition flushed :: "string \<Rightarrow> 'd server \<Rightarrow> 'd server \<Rightarrow> bool" where
  "flushed room s s' =
     (timers_ok room s' \<and> armed room s' = [] \<and> pending_updates s' room = []
      \<and> flushTimers s' room = None \<and> readyState s' = readyState s
      \<and> ydoc s' = ydoc s \<and> members s' = members s)"

definition dequeued :: "task \<Rightarrow> 'd server \<Rightarrow> 'd server" where
  "dequeued k s =
     (case period k of
        None \<Rightarrow> clearTimeout (tid k) s
      | Some p \<Rightarrow> s\<lparr>tasks := map (\<lambda>j. if tid j = tid k then j\<lparr>due := due j + p\<rparr> else j) (tasks s)\<rparr>)"

subsection \<open>A concrete library and start state for evaluating instances\<close>

text \<open>
  A small stand-in for the libraries: a variable-length integer is one byte, a document
  is the list of the updates applied to it.
\<close>

definition sample_library :: "bytes list library" where
  "sample_library =
     \<lparr>DEBUG = False,
      newDoc = [],
      readVarUint = (\<lambda>d. if pos d < length (arr d)
                          then Some (unat (arr d ! pos d), d\<lparr>pos := Suc (pos d)\<rparr>) else None),
      readVarUint8Array = (\<lambda>d. if pos d < length (arr d)
                          then Some (drop (Suc (pos d)) (arr d), d\<lparr>pos := length (arr d)\<rparr>) else None),
      writeVarUint = (\<lambda>n. [of_nat n]),
      writeSyncStep1 = (\<lambda>dc. [0, of_nat (length dc)]),
      writeSyncStep2 = (\<lambda>dc sv. Some (1 # concat dc)),
      readSyncStep2 = (\<lambda>d dc. if pos d < length (arr d)
                          then Some (dc @ [drop (Suc (pos d)) (arr d)]) else None),
      readUpdate = (\<lambda>d dc. if pos d < length (arr d)
                          then Some (dc @ [drop (Suc (pos d)) (arr d)]) else None)\<rparr>"

text \<open>The module-level maps start empty; every socket is open.\<close>

definition startup :: "'d library \<Rightarrow> 'd server" where
  "startup E =
     \<lparr>docs = Map.empty, connections = Map.empty, heartbeats = Map.empty,
      updateBuffers = Map.empty, flushTimers = Map.empty,
      awarenessBuffers = Map.empty, awarenessFlushTimers = Map.empty,
      ydoc = (\<lambda>r. newDoc E), members = (\<lambda>r. []), next_ref = 0,
      listeners = Map.empty, readyState = (\<lambda>c. OPEN),
      tasks = [], next_timer = 0, now = 0\<rparr>"

text \<open>A buffer with entries for three destinations, the second of which has closed.\<close>

definition two_peers :: "bytes list server" where
  "two_peers = (startup sample_library)
     \<lparr>updateBuffers := [''abc'' \<mapsto> [(1, [1]), (2, [2]), (1, [3]), (3, [4])]],
      readyState := (\<lambda>c. if c = 2 then 3 else 1)\<rparr>"

text \<open>The state after sockets 1 and 2 were admitted to room \<^verbatim>\<open>abc\<close>, and their closure.\<close>

definition one_room :: "bytes list server" where
  "one_room = snd (connection_handler sample_library 2 ''/abc''
                (snd (connection_handler sample_library 1 ''/abc'' (startup sample_library))))"

definition abc :: closure where
  "abc = \<lparr>roomName = ''abc'', doc = 0, roomConnections = 1\<rparr>"

text \<open>The state after socket 1 sent an update frame in room \<^verbatim>\<open>abc\<close>.\<close>

definition update_from_1 :: "bytes list server" where
  "update_from_1 = snd (message_handler sample_library 1 abc [0, 2, 1, 9] one_room)"

text \<open>
  Socket 1 alone in room \<^verbatim>\<open>abc\<close>; and the state after socket 1 sent an update and
  socket 2 then closed, which leaves socket 1 alone with a buffered update and an armed
  flush timer.
\<close>

definition solo :: "bytes list server" where
  "solo = snd (connection_handler sample_library 1 ''/abc'' (startup sample_library))"

definition left_alone :: "bytes list server" where
  "left_alone = snd (emit_close sample_library 2 update_from_1)"

text \<open>
  Sockets 1, 2 and 3 in room \<^verbatim>\<open>abc\<close>; socket 1 sent the awareness frame \<open>[1, 7]\<close>, then
  socket 2 sent the awareness frame \<open>[1, 8]\<close>.
\<close>

definition two_senders :: "bytes list server" where
  "two_senders =
     snd (message_handler sample_library 2 abc [1, 8]
       (snd (message_handler sample_library 1 abc [1, 7]
         (snd (connection_handler sample_library 3 ''/abc'' one_room)))))"

section \<open>Properties of the relay\<close>

subsection \<open>Flushing the update buffer\<close>

lemma send_messages_map:
  "send_messages (c, ms) = map (\<lambda>msg. Send UpdateBroadcast c (Binary msg)) ms"
  by (cases ms) (auto simp: send_messages_def)

lemma clientMessages_snoc:
  "clientMessages rs (buffer @ [(c, m)]) =
     (if rs c = 1 then map_push c m (clientMessages rs buffer) else clientMessages rs buffer)"
  by (simp add: clientMessages_def)

lemma destinations_snoc:
  "destinations rs (buffer @ [e]) =
     (if rs (fst e) = 1 then set_add (fst e) (destinations rs buffer) else destinations rs buffer)"
  by (simp add: destinations_def split: prod.splits)

lemma destinations_Nil: "destinations rs [] = []"
  by (simp add: destinations_def)

lemma for_dest_snoc: "for_dest d (buffer @ [(c, m)]) = for_dest d buffer @ (if c = d then [m] else [])"
  by (simp add: for_dest_def)

lemma distinct_destinations: "distinct (destinations rs buffer)"
  by (induction buffer rule: rev_induct) (auto simp: destinations_Nil destinations_snoc set_add_def)

lemma set_destinations:
  "set (destinations rs buffer) = {c \<in> fst ` set buffer. rs c = 1}"
  by (induction buffer rule: rev_induct) (force simp: destinations_Nil destinations_snoc set_add_def)+

lemma for_dest_empty: "d \<notin> fst ` set buffer \<Longrightarrow> for_dest d buffer = []"
  by (force simp: for_dest_def filter_empty_conv)

lemma map_push_known:
  "c \<in> set ks \<Longrightarrow> distinct ks \<Longrightarrow>
   map_push c m (map (\<lambda>d. (d, g d)) ks) = map (\<lambda>d. (d, g d @ (if c = d then [m] else []))) ks"
  by (induction ks) auto

lemma map_push_new:
  "c \<notin> set ks \<Longrightarrow>
   map_push c m (map (\<lambda>d. (d, g d)) ks) = map (\<lambda>d. (d, g d)) ks @ [(c, [m])]"
  by (induction ks) auto

lemma clientMessages_groups:
  "clientMessages rs buffer = map (\<lambda>d. (d, for_dest d buffer)) (destinations rs buffer)"
proof (induction buffer rule: rev_induct)
  case Nil
  show ?case by (simp add: clientMessages_def destinations_def)
next
  case (snoc e buffer)
  obtain c m where e: "e = (c, m)" by (cases e)
  show ?case
  proof (cases "rs c = 1")
    case False
    have "\<And>d. d \<in> set (destinations rs buffer) \<Longrightarrow> c \<noteq> d"
      using False by (auto simp: set_destinations)
    then show ?thesis using False snoc
      by (simp add: e clientMessages_snoc destinations_snoc for_dest_snoc)
  next
    case True
    show ?thesis
    proof (cases "c \<in> set (destinations rs buffer)")
      case True
      then show ?thesis using \<open>rs c = 1\<close> snoc
        by (simp add: e clientMessages_snoc destinations_snoc for_dest_snoc map_push_known distinct_destinations set_add_def)
    next
      case False
      then have "c \<notin> fst ` set buffer" using \<open>rs c = 1\<close> by (auto simp: set_destinations)
      then have emp: "for_dest c buffer = []" by (rule for_dest_empty)
      have other: "\<And>d. d \<in> set (destinations rs buffer) \<Longrightarrow> c \<noteq> d" using False by auto
      show ?thesis using False \<open>rs c = 1\<close> snoc emp other
        by (simp add: e clientMessages_snoc destinations_snoc for_dest_snoc map_push_new set_add_def)
    qed
  qed
qed

lemma delivered_append: "delivered og d (xs @ ys) = delivered og d xs @ delivered og d ys"
  by (simp add: delivered_def)

lemma delivered_Nil: "delivered og d [] = []"
  by (simp add: delivered_def)

lemma delivered_sends:
  "delivered og d (map (\<lambda>msg. Send og c (Binary msg)) ms) = (if c = d then map Binary ms else [])"
  by (induction ms) (auto simp: delivered_def)

lemma delivered_groups:
  "distinct ks \<Longrightarrow>
   delivered UpdateBroadcast d (concat (map send_messages (map (\<lambda>c. (c, g c)) ks)))
     = (if d \<in> set ks then map Binary (g d) else [])"
proof (induction ks)
  case Nil
  show ?case by (simp add: delivered_def)
next
  case (Cons k ks)
  then show ?case
    by (auto simp: send_messages_map delivered_append delivered_sends)
qed

lemma delivered_flush:
  "delivered UpdateBroadcast d (concat (map send_messages (clientMessages rs buffer)))
     = (if rs d = 1 then map Binary (for_dest d buffer) else [])"
proof -
  have "d \<notin> set (destinations rs buffer) \<Longrightarrow> rs d = 1 \<Longrightarrow> for_dest d buffer = []"
    by (rule for_dest_empty) (auto simp: set_destinations)
  then show ?thesis
    unfolding clientMessages_groups
    by (subst delivered_groups) (auto simp: distinct_destinations set_destinations)
qed


lemma sends_flush:
  "concat (map send_messages (clientMessages rs buffer))
     = concat (map (\<lambda>d. map (\<lambda>m. Send UpdateBroadcast d (Binary m)) (for_dest d buffer))
                   (destinations rs buffer))"
  unfolding clientMessages_groups by (simp add: comp_def send_messages_map)

lemma is_send_sends: "filter is_send (map (\<lambda>m. Send og d (Binary m)) ms) = map (\<lambda>m. Send og d (Binary m)) ms"
  by (induction ms) (auto simp: is_send_def)

lemma is_send_flush:
  "filter is_send (concat (map send_messages cm)) = concat (map send_messages cm)"
proof (induction cm)
  case Nil show ?case by simp
next
  case (Cons e cm)
  obtain c ms where "e = (c, ms)" by (cases e)
  then show ?case using Cons by (simp add: send_messages_map is_send_sends)
qed

lemma flushUpdateBuffer_fst:
  "fst (flushUpdateBuffer E room s)
     = (if pending_updates s room = [] then []
        else concat (map send_messages (clientMessages (readyState s) (pending_updates s room)))
               @ (if DEBUG E then [ConsoleLog ''Flushed updates''] else []))"
  by (simp add: flushUpdateBuffer_def pending_updates_def split: option.splits)

lemma flush_delivered:
  "delivered UpdateBroadcast d (fst (flushUpdateBuffer E room s))
     = (if readyState s d = 1 then map Binary (for_dest d (pending_updates s room)) else [])"
proof (cases "pending_updates s room = []")
  case True
  then show ?thesis by (simp add: flushUpdateBuffer_fst delivered_def for_dest_def)
next
  case False
  then have a: "fst (flushUpdateBuffer E room s)
      = concat (map send_messages (clientMessages (readyState s) (pending_updates s room)))
          @ (if DEBUG E then [ConsoleLog ''Flushed updates''] else [])"
    by (simp add: flushUpdateBuffer_fst)
  have lg: "delivered UpdateBroadcast d (if DEBUG E then [ConsoleLog ''Flushed updates''] else []) = []"
    by (simp add: delivered_def)
  show ?thesis unfolding a delivered_append delivered_flush lg by simp
qed

lemma flush_sends:
  "filter is_send (fst (flushUpdateBuffer E room s))
     = concat (map (\<lambda>d. map (\<lambda>m. Send UpdateBroadcast d (Binary m)) (for_dest d (pending_updates s room)))
                   (destinations (readyState s) (pending_updates s room)))"
proof (cases "pending_updates s room = []")
  case True
  then show ?thesis by (simp add: flushUpdateBuffer_fst destinations_def)
next
  case False
  have "filter is_send (fst (flushUpdateBuffer E room s))
          = concat (map send_messages (clientMessages (readyState s) (pending_updates s room)))"
    using False by (simp add: flushUpdateBuffer_fst is_send_flush) (simp add: is_send_def)
  then show ?thesis by (simp only: sends_flush)
qed

lemma flush_clears: "pending_updates (snd (flushUpdateBuffer E room s)) room = []"
  by (simp add: flushUpdateBuffer_def pending_updates_def split: option.splits)

text \<open>
  Claim C6. A flush of a room's update buffer delivers to every destination that is open
  at the flush exactly the messages buffered for it, in buffer order, and nothing to a
  destination that is not open. The sends are grouped by destination, the destinations
  in the order of their first buffered entry. Afterwards the room has no buffered update.
\<close>

theorem flushUpdateBuffer_delivers:
  "(\<forall>d. delivered UpdateBroadcast d (fst (flushUpdateBuffer E room s))
          = (if readyState s d = 1 then map Binary (for_dest d (pending_updates s room)) else []))
   \<and> filter is_send (fst (flushUpdateBuffer E room s))
        = concat (map (\<lambda>d. map (\<lambda>m. Send UpdateBroadcast d (Binary m)) (for_dest d (pending_updates s room)))
                      (destinations (readyState s) (pending_updates s room)))
   \<and> pending_updates (snd (flushUpdateBuffer E room s)) room = []"
  using flush_delivered [of _ E room s] flush_sends [of E room s] flush_clears [of E room s]
  by simp

theorem flushUpdateBuffer_delivers_witness:
  "delivered UpdateBroadcast 1 (fst (flushUpdateBuffer sample_library ''abc'' two_peers)) = [Binary [1], Binary [3]]
   \<and> delivered UpdateBroadcast 2 (fst (flushUpdateBuffer sample_library ''abc'' two_peers)) = []
   \<and> filter is_send (fst (flushUpdateBuffer sample_library ''abc'' two_peers))
        = [Send UpdateBroadcast 1 (Binary [1]), Send UpdateBroadcast 1 (Binary [3]), Send UpdateBroadcast 3 (Binary [4])]
   \<and> pending_updates (snd (flushUpdateBuffer sample_library ''abc'' two_peers)) ''abc'' = []"
  using flushUpdateBuffer_delivers [of sample_library "''abc''" two_peers]
  by (simp add: two_peers_def startup_def pending_updates_def for_dest_def destinations_def set_add_def)

subsection \<open>Frames that are dropped\<close>


lemma one_room_facts:
  "ydoc one_room 0 = []" "members one_room (Suc 0) = [Suc 0, 2]" "readyState one_room = (\<lambda>c. Suc 0)"
  "updateBuffers one_room = Map.empty" "docs one_room ''abc'' = Some 0"
  "connections one_room ''abc'' = Some (Suc 0)"
  "listeners one_room (Suc 0) = Some abc" "listeners one_room 2 = Some abc"
  by (simp_all add: one_room_def abc_def connection_handler_def roomMatch_def line_terminator_def
        getOrCreateDoc_def getOrCreateConnections_def setInterval_def set_add_def startup_def
        sample_library_def OPEN_def HEARTBEAT_INTERVAL_def Let_def fun_eq_iff)



subsection \<open>Sync frames\<close>

text \<open>
  Claim C8. A sync frame of sub-kind 0 (step 1) whose payload can be read is answered to
  the sender alone with the sync kind followed by what \<^verbatim>\<open>writeSyncStep2\<close> writes for the
  local document and the received state vector; the state, and with it every buffer,
  is unchanged. A sync frame of sub-kind 1 (step 2) is merged into the document; no
  action is performed and nothing else in the state changes. The kind is encoded in one
  byte, and a step 2 reply is not empty.
\<close>

theorem sync_steps_reply_only:
  "(readVarUint E (createDecoder message) = Some (messageSync, dec)
      \<and> readVarUint E dec = Some (0, dec')
      \<and> readVarUint8Array E dec' = Some (sv, dec'')
      \<and> writeSyncStep2 E (ydoc s (doc cl)) sv = Some step2
      \<and> length (writeVarUint E messageSync) = 1 \<and> step2 \<noteq> []
      \<and> readyState s ws \<noteq> CONNECTING
    \<longrightarrow> message_handler E ws cl message s
          = ([Send SyncReply ws (Binary (writeVarUint E messageSync @ step2))], s))
   \<and> (readVarUint E (createDecoder message) = Some (messageSync, dec)
      \<and> readVarUint E dec = Some (1, dec')
      \<and> readSyncStep2 E dec' (ydoc s (doc cl)) = Some merged
      \<and> length (writeVarUint E messageSync) = 1
    \<longrightarrow> message_handler E ws cl message s = ([], s\<lparr>ydoc := (ydoc s)(doc cl := merged)\<rparr>))"
  by (simp add: message_handler_def sync_step_def send_throws_def)

theorem sync_steps_reply_only_witness:
  "message_handler sample_library 1 abc [0, 0, 9] one_room
     = ([Send SyncReply 1 (Binary [0, 1])], one_room)
   \<and> message_handler sample_library 1 abc [0, 1, 1, 9] one_room
     = ([], one_room\<lparr>ydoc := (ydoc one_room)(0 := [[9]])\<rparr>)"
proof -
  have a: "readVarUint sample_library (createDecoder [0, 0, 9]) = Some (messageSync, \<lparr>arr = [0, 0, 9], pos = 1\<rparr>)"
    "readVarUint sample_library \<lparr>arr = [0, 0, 9], pos = 1\<rparr> = Some (0, \<lparr>arr = [0, 0, 9], pos = 2\<rparr>)"
    "readVarUint8Array sample_library \<lparr>arr = [0, 0, 9], pos = 2\<rparr> = Some ([], \<lparr>arr = [0, 0, 9], pos = 3\<rparr>)"
    "writeSyncStep2 sample_library (ydoc one_room (doc abc)) [] = Some [1]"
    "length (writeVarUint sample_library messageSync) = 1"
    "writeVarUint sample_library messageSync = [0]"
    "readyState one_room 1 \<noteq> CONNECTING"
    by (simp_all add: sample_library_def createDecoder_def messageSync_def one_room_facts abc_def CONNECTING_def)
  have b: "readVarUint sample_library (createDecoder [0, 1, 1, 9]) = Some (messageSync, \<lparr>arr = [0, 1, 1, 9], pos = 1\<rparr>)"
    "readVarUint sample_library \<lparr>arr = [0, 1, 1, 9], pos = 1\<rparr> = Some (1, \<lparr>arr = [0, 1, 1, 9], pos = 2\<rparr>)"
    "readSyncStep2 sample_library \<lparr>arr = [0, 1, 1, 9], pos = 2\<rparr> (ydoc one_room (doc abc)) = Some [[9]]"
    by (simp_all add: sample_library_def createDecoder_def messageSync_def one_room_facts abc_def)
  have c: "doc abc = 0" by (simp add: abc_def)
  show ?thesis
    using sync_steps_reply_only [of sample_library "[0, 0, 9]" "\<lparr>arr = [0, 0, 9], pos = 1\<rparr>"
        "\<lparr>arr = [0, 0, 9], pos = 2\<rparr>" "[]" "\<lparr>arr = [0, 0, 9], pos = 3\<rparr>" one_room abc "[1]" 1]
      sync_steps_reply_only [of sample_library "[0, 1, 1, 9]" "\<lparr>arr = [0, 1, 1, 9], pos = 1\<rparr>"
        "\<lparr>arr = [0, 1, 1, 9], pos = 2\<rparr>" _ _ one_room abc _ _ "[[9]]"]
      a b c
    by simp
qed

subsection \<open>Update frames\<close>

lemma enqueue_append:
  "enqueue ws message clients rs buffer
     = buffer @ map (\<lambda>c. (c, message)) (filter (\<lambda>c. c \<noteq> ws \<and> rs c = 1) clients)"
  unfolding enqueue_def by (induction clients arbitrary: buffer) auto

lemma buffer_update_pending:
  "pending_updates (buffer_update ws cl message s) (roomName cl)
     = pending_updates s (roomName cl) @ map (\<lambda>c. (c, message)) (peers ws cl s)"
  by (simp add: buffer_update_def pending_updates_def enqueue_append peers_def setTimeout_def
        clearTimeout_def Let_def split: option.splits)

lemma sync_step_update:
  "sync_step E cl 2 dec s
     = (case readUpdate E dec (ydoc s (doc cl)) of
          None \<Rightarrow> None
        | Some d' \<Rightarrow> Some (writeVarUint E messageSync, s\<lparr>ydoc := (ydoc s)(doc cl := d')\<rparr>))"
  by (simp add: sync_step_def)

lemma update_frame:
  assumes "readVarUint E (createDecoder message) = Some (messageSync, dec)"
    and "readVarUint E dec = Some (2, dec')"
  shows "message_handler E ws cl message s
     = (case readUpdate E dec' (ydoc s (doc cl)) of
          None \<Rightarrow> processing_failed ws s
        | Some d' \<Rightarrow> ([], buffer_update ws cl message (s\<lparr>ydoc := (ydoc s)(doc cl := d')\<rparr>)))"
  using assms by (simp add: message_handler_def sync_step_update split: option.splits)

lemma for_dest_append: "for_dest d (xs @ ys) = for_dest d xs @ for_dest d ys"
  by (simp add: for_dest_def)

lemma for_dest_peers:
  "d = ws \<or> d \<notin> set (members s (roomConnections cl)) \<Longrightarrow>
   for_dest d (map (\<lambda>c. (c, message)) (peers ws cl s)) = []"
  by (auto simp: for_dest_def peers_def filter_empty_conv)

lemma delivered_failed: "delivered UpdateBroadcast d (fst (processing_failed ws s)) = []"
  by (simp add: processing_failed_def delivered_def)

text \<open>
  Claim C1. An inbound sync frame of sub-kind 2 (update) from a socket is sent to nobody
  by the listener itself. The entries it appends to the room's update buffer are the
  frame, once for each open member of the \<^verbatim>\<open>Set\<close> the sender was admitted into other
  than the sender (none when the document engine rejects the update). The sender, and
  any socket outside that \<^verbatim>\<open>Set\<close>, has the same buffered messages as before, so a later
  flush of that buffer delivers to the sender only what was buffered for it earlier.
\<close>

theorem update_not_echoed:
  assumes "readVarUint E (createDecoder message) = Some (messageSync, dec)"
    and "readVarUint E dec = Some (2, dec')"
  shows "(\<forall>d. delivered UpdateBroadcast d (fst (message_handler E ws cl message s)) = [])
    \<and> pending_updates (snd (message_handler E ws cl message s)) (roomName cl)
        = pending_updates s (roomName cl)
            @ (case readUpdate E dec' (ydoc s (doc cl)) of
                 None \<Rightarrow> []
               | Some d' \<Rightarrow> map (\<lambda>c. (c, message)) (peers ws cl s))
    \<and> (\<forall>d. d = ws \<or> d \<notin> set (members s (roomConnections cl)) \<longrightarrow>
          for_dest d (pending_updates (snd (message_handler E ws cl message s)) (roomName cl))
            = for_dest d (pending_updates s (roomName cl)))
    \<and> (\<forall>s'. pending_updates s' (roomName cl)
               = pending_updates (snd (message_handler E ws cl message s)) (roomName cl) \<longrightarrow>
          delivered UpdateBroadcast ws (fst (flushUpdateBuffer E (roomName cl) s'))
            = (if readyState s' ws = 1 then map Binary (for_dest ws (pending_updates s (roomName cl)))
               else []))"
proof -
  let ?s' = "snd (message_handler E ws cl message s)"
  have sent: "\<And>d. delivered UpdateBroadcast d (fst (message_handler E ws cl message s)) = []"
    by (cases "readUpdate E dec' (ydoc s (doc cl))")
      (simp_all add: update_frame [OF assms] delivered_failed delivered_Nil)
  have pend: "pending_updates ?s' (roomName cl)
        = pending_updates s (roomName cl)
            @ (case readUpdate E dec' (ydoc s (doc cl)) of
                 None \<Rightarrow> []
               | Some d' \<Rightarrow> map (\<lambda>c. (c, message)) (peers ws cl s))"
  proof (cases "readUpdate E dec' (ydoc s (doc cl))")
    case None
    then show ?thesis by (simp add: update_frame [OF assms] processing_failed_def)
  next
    case (Some d')
    have "peers ws cl (s\<lparr>ydoc := (ydoc s)(doc cl := d')\<rparr>) = peers ws cl s"
      by (simp add: peers_def)
    moreover have "pending_updates (s\<lparr>ydoc := (ydoc s)(doc cl := d')\<rparr>) (roomName cl)
        = pending_updates s (roomName cl)"
      by (simp add: pending_updates_def)
    ultimately show ?thesis using Some
      by (simp add: update_frame [OF assms] buffer_update_pending)
  qed
  have own: "\<And>d. d = ws \<or> d \<notin> set (members s (roomConnections cl)) \<Longrightarrow>
      for_dest d (pending_updates ?s' (roomName cl)) = for_dest d (pending_updates s (roomName cl))"
    unfolding pend for_dest_append
    by (cases "readUpdate E dec' (ydoc s (doc cl))") (simp_all add: for_dest_peers, simp add: for_dest_def)
  have "\<And>s'. pending_updates s' (roomName cl) = pending_updates ?s' (roomName cl) \<Longrightarrow>
          delivered UpdateBroadcast ws (fst (flushUpdateBuffer E (roomName cl) s'))
            = (if readyState s' ws = 1 then map Binary (for_dest ws (pending_updates s (roomName cl)))
               else [])"
    by (simp add: flush_delivered own)
  with sent pend own show ?thesis by blast
qed

theorem update_not_echoed_witness:
  "pending_updates update_from_1 ''abc'' = [(2, [0, 2, 1, 9])]
   \<and> for_dest 1 (pending_updates update_from_1 ''abc'') = []
   \<and> delivered UpdateBroadcast 1 (fst (flushUpdateBuffer sample_library ''abc'' update_from_1)) = []
   \<and> delivered UpdateBroadcast 1 (fst (message_handler sample_library 1 abc [0, 2, 1, 9] one_room)) = []"
proof -
  have a: "readVarUint sample_library (createDecoder [0, 2, 1, 9]) = Some (messageSync, \<lparr>arr = [0, 2, 1, 9], pos = 1\<rparr>)"
    "readVarUint sample_library \<lparr>arr = [0, 2, 1, 9], pos = 1\<rparr> = Some (2, \<lparr>arr = [0, 2, 1, 9], pos = 2\<rparr>)"
    by (simp_all add: sample_library_def createDecoder_def messageSync_def)
  have b: "readUpdate sample_library \<lparr>arr = [0, 2, 1, 9], pos = 2\<rparr> (ydoc one_room (doc abc)) = Some [[9]]"
    by (simp add: sample_library_def one_room_facts abc_def)
  have c: "peers 1 abc one_room = [2]" "pending_updates one_room ''abc'' = []" "roomName abc = ''abc''"
    by (simp_all add: peers_def one_room_facts abc_def pending_updates_def)
  have d: "readyState update_from_1 1 = 1"
    by (simp add: update_from_1_def update_frame [OF a] b buffer_update_def setTimeout_def
          clearTimeout_def Let_def one_room_facts split: option.splits)
  show ?thesis
    using update_not_echoed [OF a, of 1 abc one_room] b c d
    by (simp add: update_from_1_def for_dest_def)
qed

subsection \<open>Admission\<close>

lemma roomMatch_None:
  "roomMatch pathname = None \<longleftrightarrow>
     \<not> (\<exists>room. pathname = CHR ''/'' # room \<and> room \<noteq> [] \<and> \<not> list_ex line_terminator room)"
  by (cases pathname) (auto simp: roomMatch_def)

lemma roomMatch_Some:
  "room \<noteq> [] \<Longrightarrow> \<not> list_ex line_terminator room \<Longrightarrow> roomMatch (CHR ''/'' # room) = Some room"
  by (simp add: roomMatch_def)

lemma connection_admits:
  assumes "roomMatch pathname = Some room"
  shows "admitted ws room (connection_handler E ws pathname s)"
  using assms
  by (simp add: admitted_def connection_handler_def getOrCreateDoc_def getOrCreateConnections_def
        setInterval_def set_add_def Let_def split: option.splits)

text \<open>
  Claim C2, as stated, fails: the path \<^verbatim>\<open>/a/b\<close> is not a single segment, yet the socket
  is admitted, to a room named \<^verbatim>\<open>a/b\<close>, and receives the handshake.
\<close>

theorem multi_segment_admitted:
  "\<not> single_segment ''/a/b''
   \<and> fst (connection_handler sample_library 1 ''/a/b'' (startup sample_library))
       = [Send Handshake 1 (Binary [0, 0, 0])]
   \<and> docs (snd (connection_handler sample_library 1 ''/a/b'' (startup sample_library))) ''a/b'' = Some 0
   \<and> connections (snd (connection_handler sample_library 1 ''/a/b'' (startup sample_library))) ''a/b'' = Some 1
   \<and> members (snd (connection_handler sample_library 1 ''/a/b'' (startup sample_library))) 1 = [1]"
  by (simp add: single_segment_def connection_handler_def roomMatch_def line_terminator_def
        getOrCreateDoc_def getOrCreateConnections_def setInterval_def set_add_def startup_def
        sample_library_def OPEN_def HEARTBEAT_INTERVAL_def Let_def send_throws_def CONNECTING_def
        messageSync_def)

text \<open>
  Claim C2, amended. A socket is refused, with close code 1008 and the state untouched,
  when its pathname is not a slash followed by at least one character (none of them a
  line terminator, which a URL pathname never contains). Every pathname of that shape is
  admitted with the whole remainder after the leading slash as the room name, whether
  it has one segment or several.
\<close>

theorem admission_by_path:
  "(\<not> (\<exists>room. pathname = CHR ''/'' # room \<and> room \<noteq> [] \<and> \<not> list_ex line_terminator room) \<longrightarrow>
      connection_handler E ws pathname s = ([Close ws 1008 ''Invalid room path''], s))
   \<and> (room \<noteq> [] \<and> \<not> list_ex line_terminator room \<longrightarrow>
      admitted ws room (connection_handler E ws (CHR ''/'' # room) s))"
proof (intro conjI impI)
  assume "\<not> (\<exists>room. pathname = CHR ''/'' # room \<and> room \<noteq> [] \<and> \<not> list_ex line_terminator room)"
  then have "roomMatch pathname = None" using roomMatch_None [of pathname] by blast
  then show "connection_handler E ws pathname s = ([Close ws 1008 ''Invalid room path''], s)"
    by (simp add: connection_handler_def)
next
  assume "room \<noteq> [] \<and> \<not> list_ex line_terminator room"
  then have "roomMatch (CHR ''/'' # room) = Some room" by (simp add: roomMatch_Some)
  then show "admitted ws room (connection_handler E ws (CHR ''/'' # room) s)"
    by (rule connection_admits)
qed

theorem admission_by_path_witness:
  "connection_handler sample_library 1 ''/'' (startup sample_library)
     = ([Close 1 1008 ''Invalid room path''], startup sample_library)
   \<and> connection_handler sample_library 1 ''abc'' (startup sample_library)
     = ([Close 1 1008 ''Invalid room path''], startup sample_library)
   \<and> admitted 1 ''a/b'' (connection_handler sample_library 1 ''/a/b'' (startup sample_library))
   \<and> admitted 1 ''abc'' (connection_handler sample_library 1 ''/abc'' (startup sample_library))"
proof -
  have a: "\<not> (\<exists>room. ''/'' = CHR ''/'' # room \<and> room \<noteq> [] \<and> \<not> list_ex line_terminator room)"
    "\<not> (\<exists>room. ''abc'' = CHR ''/'' # room \<and> room \<noteq> [] \<and> \<not> list_ex line_terminator room)"
    by simp_all
  have b: "''a/b'' \<noteq> [] \<and> \<not> list_ex line_terminator ''a/b''" "''abc'' \<noteq> [] \<and> \<not> list_ex line_terminator ''abc''"
    by (simp_all add: line_terminator_def)
  show ?thesis
    using admission_by_path [of "''/''" sample_library 1 "startup sample_library" "''a/b''"]
      admission_by_path [of "''abc''" sample_library 1 "startup sample_library" "''abc''"] a b
    by simp
qed


subsection \<open>Closing the last socket of a room\<close>

lemma cleanup_room_released: "released room (cleanup_room room s)"
  by (simp add: released_def cleanup_room_def clearTimeout_def Let_def split: option.splits)

lemma tasks_drop_connection:
  "tasks (drop_connection ws cl s)
     = (case heartbeats s ws of None \<Rightarrow> tasks s | Some h \<Rightarrow> filter (\<lambda>k. tid k \<noteq> h) (tasks s))"
  by (simp add: drop_connection_def clearInterval_def clearTimeout_def Let_def split: option.splits)

lemma timers_drop_connection:
  "flushTimers (drop_connection ws cl s) = flushTimers s"
  "awarenessFlushTimers (drop_connection ws cl s) = awarenessFlushTimers s"
  "heartbeats (drop_connection ws cl s) = (heartbeats s)(ws := None)"
  "members (drop_connection ws cl s) (roomConnections cl) = set_delete ws (members s (roomConnections cl))"
  by (auto simp: drop_connection_def clearInterval_def clearTimeout_def Let_def split: option.splits)

lemma tasks_cleanup_room:
  "tasks (cleanup_room room s)
     = filter (\<lambda>k. Some (tid k) \<noteq> flushTimers s room \<and> Some (tid k) \<noteq> awarenessFlushTimers s room) (tasks s)"
  by (auto simp: cleanup_room_def clearTimeout_def Let_def split: option.splits intro: filter_cong)

lemma cancelled_filter:
  "tasks s' = filter P (tasks s) \<Longrightarrow> (\<And>k. tid k = i \<Longrightarrow> \<not> P k) \<Longrightarrow> cancelled (Some i) s'"
  by (auto simp: cancelled_def list_ex_iff)

lemma cancelled_mono:
  "cancelled t s \<Longrightarrow> tasks s' = filter P (tasks s) \<Longrightarrow> cancelled t s'"
  by (auto simp: cancelled_def list_ex_iff split: option.splits)

lemma close_last:
  assumes "set_delete ws (members s (roomConnections cl)) = []"
  shows "snd (close_handler E ws cl s) = cleanup_room (roomName cl) (drop_connection ws cl s)"
  using assms by (simp add: close_handler_def Let_def timers_drop_connection)

lemma connection_fresh_doc:
  assumes "docs s room = None" and "roomMatch pathname = Some room"
  shows "docs (snd (connection_handler E ws' pathname s)) room = Some (next_ref s)
       \<and> ydoc (snd (connection_handler E ws' pathname s)) (next_ref s) = newDoc E
       \<and> (readyState s ws' \<noteq> CONNECTING \<longrightarrow>
            Send Handshake ws' (Binary (writeVarUint E messageSync @ writeSyncStep1 E (newDoc E)))
              \<in> set (fst (connection_handler E ws' pathname s)))"
  using assms
  by (simp add: connection_handler_def getOrCreateDoc_def getOrCreateConnections_def
        setInterval_def Let_def send_throws_def split: option.splits)

text \<open>
  Claim C5. When the \<^verbatim>\<open>close\<close> listener of a socket leaves the \<^verbatim>\<open>Set\<close> it was admitted
  into empty, the same step removes the room's document, connection set, update buffer
  and awareness buffer from the maps, cancels and forgets both flush timers and the
  socket's heartbeat, and a connection to the same room name right afterwards gets a newly
  created document.
\<close>

theorem last_close_releases_room:
  assumes "set_delete ws (members s (roomConnections cl)) = []"
  shows "released (roomName cl) (snd (close_handler E ws cl s))
    \<and> cancelled (flushTimers s (roomName cl)) (snd (close_handler E ws cl s))
    \<and> cancelled (awarenessFlushTimers s (roomName cl)) (snd (close_handler E ws cl s))
    \<and> cancelled (heartbeats s ws) (snd (close_handler E ws cl s))
    \<and> heartbeats (snd (close_handler E ws cl s)) ws = None
    \<and> (roomName cl \<noteq> [] \<and> \<not> list_ex line_terminator (roomName cl) \<longrightarrow>
         (let s1 = snd (close_handler E ws cl s);
              s2 = snd (connection_handler E ws' (CHR ''/'' # roomName cl) s1)
          in docs s2 (roomName cl) = Some (next_ref s1) \<and> ydoc s2 (next_ref s1) = newDoc E))"
proof -
  let ?s1 = "drop_connection ws cl s"
  let ?s2 = "cleanup_room (roomName cl) ?s1"
  have eq: "snd (close_handler E ws cl s) = ?s2" by (rule close_last [OF assms])
  have rel: "released (roomName cl) ?s2" by (rule cleanup_room_released)
  have t2: "tasks ?s2 = filter (\<lambda>k. Some (tid k) \<noteq> flushTimers s (roomName cl)
                \<and> Some (tid k) \<noteq> awarenessFlushTimers s (roomName cl)) (tasks ?s1)"
    by (simp add: tasks_cleanup_room timers_drop_connection)
  have c1: "cancelled (flushTimers s (roomName cl)) ?s2"
    by (cases "flushTimers s (roomName cl)") (auto simp: cancelled_def t2 list_ex_iff)
  have c2: "cancelled (awarenessFlushTimers s (roomName cl)) ?s2"
    by (cases "awarenessFlushTimers s (roomName cl)") (auto simp: cancelled_def t2 list_ex_iff)
  have c3: "cancelled (heartbeats s ws) ?s1"
    by (cases "heartbeats s ws") (auto simp: cancelled_def tasks_drop_connection list_ex_iff)
  have c3': "cancelled (heartbeats s ws) ?s2" by (rule cancelled_mono [OF c3 t2])
  have hb: "heartbeats ?s2 ws = None"
    by (simp add: cleanup_room_def clearTimeout_def Let_def timers_drop_connection split: option.splits)
  have fresh: "roomName cl \<noteq> [] \<and> \<not> list_ex line_terminator (roomName cl) \<Longrightarrow>
      docs (snd (connection_handler E ws' (CHR ''/'' # roomName cl) ?s2)) (roomName cl) = Some (next_ref ?s2)
      \<and> ydoc (snd (connection_handler E ws' (CHR ''/'' # roomName cl) ?s2)) (next_ref ?s2) = newDoc E"
    using connection_fresh_doc [of ?s2 "roomName cl" "CHR ''/'' # roomName cl" E ws'] rel
    by (simp add: released_def roomMatch_Some)
  show ?thesis unfolding eq Let_def using rel c1 c2 c3' hb fresh by blast
qed


lemma solo_facts:
  "members solo (Suc 0) = [Suc 0]" "docs solo ''abc'' = Some 0" "connections solo ''abc'' = Some (Suc 0)"
  "listeners solo (Suc 0) = Some abc" "heartbeats solo (Suc 0) = Some 0"
  "flushTimers solo ''abc'' = None" "awarenessFlushTimers solo ''abc'' = None"
  "tasks solo = [\<lparr>tid = 0, due = 30000, period = Some 30000, run = Heartbeat (Suc 0)\<rparr>]"
  by (simp_all add: solo_def abc_def connection_handler_def roomMatch_def line_terminator_def
        getOrCreateDoc_def getOrCreateConnections_def setInterval_def set_add_def startup_def
        sample_library_def OPEN_def HEARTBEAT_INTERVAL_def Let_def)

theorem last_close_releases_room_witness:
  "set_delete 1 (members solo (roomConnections abc)) = []
   \<and> released ''abc'' (snd (close_handler sample_library 1 abc solo))
   \<and> cancelled (Some 0) (snd (close_handler sample_library 1 abc solo))
   \<and> heartbeats (snd (close_handler sample_library 1 abc solo)) 1 = None
   \<and> docs (snd (connection_handler sample_library 2 ''/abc'' (snd (close_handler sample_library 1 abc solo)))) ''abc''
       = Some (next_ref (snd (close_handler sample_library 1 abc solo)))
   \<and> ydoc (snd (connection_handler sample_library 2 ''/abc'' (snd (close_handler sample_library 1 abc solo))))
        (next_ref (snd (close_handler sample_library 1 abc solo))) = newDoc sample_library"
proof -
  have a: "set_delete 1 (members solo (roomConnections abc)) = []"
    by (simp add: solo_facts abc_def set_delete_def)
  have b: "roomName abc = ''abc''" "heartbeats solo 1 = Some 0"
    "''abc'' \<noteq> [] \<and> \<not> list_ex line_terminator ''abc''"
    by (simp_all add: abc_def solo_facts line_terminator_def)
  show ?thesis
    using last_close_releases_room [OF a, of sample_library 2] a b
    by (simp add: Let_def)
qed

subsection \<open>The \<^verbatim>\<open>error\<close> listener\<close>

lemma update_from_1_facts:
  "members update_from_1 (Suc 0) = [Suc 0, 2]" "docs update_from_1 ''abc'' = Some 0"
  "connections update_from_1 ''abc'' = Some (Suc 0)"
  "listeners update_from_1 (Suc 0) = Some abc" "listeners update_from_1 2 = Some abc"
  "heartbeats update_from_1 (Suc 0) = Some 0" "heartbeats update_from_1 2 = Some (Suc 0)"
  "updateBuffers update_from_1 ''abc'' = Some [(2, [0, 2, 1, 9])]"
  "awarenessBuffers update_from_1 ''abc'' = None"
  "flushTimers update_from_1 ''abc'' = Some 2" "awarenessFlushTimers update_from_1 ''abc'' = None"
  "tasks update_from_1 = [\<lparr>tid = 0, due = 30000, period = Some 30000, run = Heartbeat (Suc 0)\<rparr>,
     \<lparr>tid = Suc 0, due = 30000, period = Some 30000, run = Heartbeat 2\<rparr>,
     \<lparr>tid = 2, due = 50, period = None, run = FlushUpdates ''abc''\<rparr>]"
  by (simp_all add: update_from_1_def one_room_def abc_def message_handler_def sync_step_def
        buffer_update_def enqueue_def setTimeout_def clearTimeout_def createDecoder_def
        connection_handler_def roomMatch_def line_terminator_def
        getOrCreateDoc_def getOrCreateConnections_def setInterval_def set_add_def startup_def
        sample_library_def OPEN_def HEARTBEAT_INTERVAL_def FLUSH_INTERVAL_def messageSync_def Let_def)

lemma left_alone_facts:
  "members left_alone (Suc 0) = [Suc 0]" "docs left_alone ''abc'' = Some 0"
  "connections left_alone ''abc'' = Some (Suc 0)"
  "listeners left_alone (Suc 0) = Some abc"
  "heartbeats left_alone (Suc 0) = Some 0"
  "updateBuffers left_alone ''abc'' = Some [(2, [0, 2, 1, 9])]"
  "awarenessBuffers left_alone ''abc'' = None"
  "flushTimers left_alone ''abc'' = Some 2" "awarenessFlushTimers left_alone ''abc'' = None"
  "tasks left_alone = [\<lparr>tid = 0, due = 30000, period = Some 30000, run = Heartbeat (Suc 0)\<rparr>,
     \<lparr>tid = 2, due = 50, period = None, run = FlushUpdates ''abc''\<rparr>]"
  by (simp_all add: left_alone_def emit_close_def close_handler_def drop_connection_def
        clearInterval_def clearTimeout_def set_delete_def update_from_1_facts abc_def Let_def)

text \<open>
  Claim C4 does not hold of the code. Socket 1 is the last member of room \<^verbatim>\<open>abc\<close>, with
  one update buffered and the flush timer armed. After an \<^verbatim>\<open>error\<close> event the \<^verbatim>\<open>Set\<close> is
  empty, but the document, the connection set, the buffer and the armed timer are all
  still registered; after a \<^verbatim>\<open>close\<close> event in the same state they are all gone.
\<close>

theorem error_keeps_empty_room:
  "members (snd (emit_error sample_library 1 left_alone)) 1 = []
   \<and> docs (snd (emit_error sample_library 1 left_alone)) ''abc'' = Some 0
   \<and> connections (snd (emit_error sample_library 1 left_alone)) ''abc'' = Some 1
   \<and> updateBuffers (snd (emit_error sample_library 1 left_alone)) ''abc'' = Some [(2, [0, 2, 1, 9])]
   \<and> flushTimers (snd (emit_error sample_library 1 left_alone)) ''abc'' = Some 2
   \<and> tasks (snd (emit_error sample_library 1 left_alone))
        = [\<lparr>tid = 2, due = 50, period = None, run = FlushUpdates ''abc''\<rparr>]
   \<and> members (snd (emit_close sample_library 1 left_alone)) 1 = []
   \<and> docs (snd (emit_close sample_library 1 left_alone)) ''abc'' = None
   \<and> connections (snd (emit_close sample_library 1 left_alone)) ''abc'' = None
   \<and> updateBuffers (snd (emit_close sample_library 1 left_alone)) ''abc'' = None
   \<and> flushTimers (snd (emit_close sample_library 1 left_alone)) ''abc'' = None
   \<and> tasks (snd (emit_close sample_library 1 left_alone)) = []"
  by (simp add: emit_error_def emit_close_def error_handler_def close_handler_def drop_connection_def
        cleanup_room_def clearInterval_def clearTimeout_def set_delete_def left_alone_facts abc_def Let_def)

subsection \<open>Awareness frames\<close>

lemma one_room_awareness: "awarenessBuffers one_room = Map.empty"
  by (simp add: one_room_def abc_def connection_handler_def roomMatch_def line_terminator_def
        getOrCreateDoc_def getOrCreateConnections_def setInterval_def set_add_def startup_def
        sample_library_def OPEN_def HEARTBEAT_INTERVAL_def Let_def fun_eq_iff)

lemma latestByClient_snoc:
  "latestByClient rs (buffer @ [e]) =
     (if rs (fst e) = 1 then map_set (fst e) (snd e) (latestByClient rs buffer) else latestByClient rs buffer)"
  by (simp add: latestByClient_def split: prod.splits)

lemma map_set_known:
  "c \<in> set ks \<Longrightarrow> distinct ks \<Longrightarrow>
   map_set c m (map (\<lambda>d. (d, g d)) ks) = map (\<lambda>d. (d, if d = c then m else g d)) ks"
  by (induction ks) auto

lemma map_set_new:
  "c \<notin> set ks \<Longrightarrow> map_set c m (map (\<lambda>d. (d, g d)) ks) = map (\<lambda>d. (d, g d)) ks @ [(c, m)]"
  by (induction ks) auto

lemma for_dest_snoc_entry: "for_dest d (buffer @ [e]) = for_dest d buffer @ (if fst e = d then [snd e] else [])"
  by (simp add: for_dest_def)

lemma latestByClient_last:
  "latestByClient rs buffer = map (\<lambda>d. (d, last (for_dest d buffer))) (destinations rs buffer)"
proof (induction buffer rule: rev_induct)
  case Nil
  show ?case by (simp add: latestByClient_def destinations_def)
next
  case (snoc e buffer)
  show ?case
  proof (cases "rs (fst e) = 1")
    case False
    have "\<And>d. d \<in> set (destinations rs buffer) \<Longrightarrow> fst e \<noteq> d"
      using False by (auto simp: set_destinations)
    then show ?thesis using False snoc
      by (simp add: latestByClient_snoc destinations_snoc for_dest_snoc_entry)
  next
    case True
    show ?thesis
    proof (cases "fst e \<in> set (destinations rs buffer)")
      case True
      then show ?thesis using \<open>rs (fst e) = 1\<close> snoc
        by (simp add: latestByClient_snoc destinations_snoc for_dest_snoc_entry map_set_known
              distinct_destinations set_add_def)
    next
      case False
      then have other: "\<And>d. d \<in> set (destinations rs buffer) \<Longrightarrow> fst e \<noteq> d" by auto
      show ?thesis using False \<open>rs (fst e) = 1\<close> snoc other
        by (simp add: latestByClient_snoc destinations_snoc for_dest_snoc_entry map_set_new set_add_def)
    qed
  qed
qed

lemma delivered_latest:
  "distinct ks \<Longrightarrow>
   delivered AwarenessBroadcast d (map (\<lambda>c. Send AwarenessBroadcast c (Binary (g c))) ks)
     = (if d \<in> set ks then [Binary (g d)] else [])"
  by (induction ks) (auto simp: delivered_def)

lemma for_dest_nonempty: "for_dest d buffer \<noteq> [] \<longleftrightarrow> d \<in> fst ` set buffer"
  by (auto simp: for_dest_def filter_empty_conv)

lemma flushAwarenessBuffer_fst:
  "fst (flushAwarenessBuffer E room s)
     = (if pending_awareness s room = [] then []
        else map (\<lambda>(client, message). Send AwarenessBroadcast client (Binary message))
               (latestByClient (readyState s) (pending_awareness s room))
             @ (if DEBUG E then [ConsoleLog ''Flushed awareness updates''] else []))"
  by (simp add: flushAwarenessBuffer_def pending_awareness_def split: option.splits)

lemma awareness_delivered:
  "delivered AwarenessBroadcast d (fst (flushAwarenessBuffer E room s))
     = (if readyState s d = 1 \<and> for_dest d (pending_awareness s room) \<noteq> []
        then [Binary (last (for_dest d (pending_awareness s room)))] else [])"
proof (cases "pending_awareness s room = []")
  case True
  then show ?thesis by (simp add: flushAwarenessBuffer_fst delivered_def for_dest_def)
next
  case False
  let ?b = "pending_awareness s room"
  have a: "fst (flushAwarenessBuffer E room s)
      = map (\<lambda>c. Send AwarenessBroadcast c (Binary (last (for_dest c ?b)))) (destinations (readyState s) ?b)
          @ (if DEBUG E then [ConsoleLog ''Flushed awareness updates''] else [])"
    using False by (simp add: flushAwarenessBuffer_fst latestByClient_last comp_def)
  have lg: "delivered AwarenessBroadcast d (if DEBUG E then [ConsoleLog ''Flushed awareness updates''] else []) = []"
    by (simp add: delivered_def)
  have "delivered AwarenessBroadcast d (fst (flushAwarenessBuffer E room s))
      = (if d \<in> set (destinations (readyState s) ?b) then [Binary (last (for_dest d ?b))] else [])"
    unfolding a delivered_append lg
    by (simp add: delivered_latest [OF distinct_destinations])
  then show ?thesis by (auto simp: set_destinations for_dest_nonempty)
qed

lemma buffer_awareness_pending:
  "pending_awareness (buffer_awareness ws cl message s) (roomName cl)
     = pending_awareness s (roomName cl) @ map (\<lambda>c. (c, message)) (peers ws cl s)"
  by (simp add: buffer_awareness_def pending_awareness_def enqueue_append peers_def setTimeout_def
        clearTimeout_def Let_def split: option.splits)

lemma buffer_awareness_peers: "peers ws cl (buffer_awareness ws' cl' message s) = peers ws cl s"
  by (simp add: buffer_awareness_def peers_def setTimeout_def clearTimeout_def Let_def
        split: option.splits)

lemma buffer_awareness_rs: "readyState (buffer_awareness ws cl message s) = readyState s"
  by (simp add: buffer_awareness_def setTimeout_def clearTimeout_def Let_def split: option.splits)

lemma awareness_frame:
  "readVarUint E (createDecoder message) = Some (messageAwareness, dec) \<Longrightarrow>
   message_handler E ws cl message s = ([], buffer_awareness ws cl message s)"
  by (simp add: message_handler_def messageAwareness_def messageSync_def)

lemma for_dest_map_peers:
  "for_dest d (map (\<lambda>c. (c, message)) ps) = replicate (length (filter (\<lambda>c. c = d) ps)) message"
  by (induction ps) (auto simp: for_dest_def)

lemma last_three:
  "last (replicate n a1 @ replicate n a2 @ replicate n a3) = (if n = 0 then last [] else a3)"
  by (cases n) auto


lemma three_room_facts:
  "members (snd (connection_handler sample_library 3 ''/abc'' one_room)) (Suc 0) = [Suc 0, 2, 3]"
  "listeners (snd (connection_handler sample_library 3 ''/abc'' one_room)) (Suc 0) = Some abc"
  "listeners (snd (connection_handler sample_library 3 ''/abc'' one_room)) 2 = Some abc"
  "readyState (snd (connection_handler sample_library 3 ''/abc'' one_room)) = (\<lambda>c. Suc 0)"
  "awarenessBuffers (snd (connection_handler sample_library 3 ''/abc'' one_room)) ''abc'' = None"
  by (simp_all add: one_room_def abc_def connection_handler_def roomMatch_def line_terminator_def
        getOrCreateDoc_def getOrCreateConnections_def setInterval_def set_add_def startup_def
        sample_library_def OPEN_def HEARTBEAT_INTERVAL_def Let_def fun_eq_iff)

lemma two_senders_facts:
  "pending_awareness two_senders ''abc'' = [(2, [1, 7]), (3, [1, 7]), (Suc 0, [1, 8]), (3, [1, 8])]"
  "readyState two_senders = (\<lambda>c. Suc 0)"
proof -
  let ?s0 = "snd (connection_handler sample_library 3 ''/abc'' one_room)"
  have k: "\<And>b. readVarUint sample_library (createDecoder [1, b]) = Some (messageAwareness, \<lparr>arr = [1, b], pos = 1\<rparr>)"
    by (simp add: sample_library_def createDecoder_def messageAwareness_def)
  have s2: "two_senders = buffer_awareness 2 abc [1, 8] (buffer_awareness 1 abc [1, 7] ?s0)"
    by (simp add: two_senders_def awareness_frame [OF k])
  have r: "roomName abc = ''abc''" by (simp add: abc_def)
  have p: "peers 1 abc ?s0 = [2, 3]" "peers 2 abc ?s0 = [Suc 0, 3]" "pending_awareness ?s0 ''abc'' = []"
    by (simp_all add: peers_def abc_def three_room_facts pending_awareness_def)
  show "pending_awareness two_senders ''abc'' = [(2, [1, 7]), (3, [1, 7]), (Suc 0, [1, 8]), (3, [1, 8])]"
    unfolding s2 using buffer_awareness_pending [of 2 abc "[1, 8]" "buffer_awareness 1 abc [1, 7] ?s0"]
      buffer_awareness_pending [of 1 abc "[1, 7]" ?s0] p
    by (simp add: r buffer_awareness_peers)
  show "readyState two_senders = (\<lambda>c. Suc 0)"
    unfolding s2 by (simp add: buffer_awareness_rs three_room_facts)
qed

text \<open>
  Claim C3, as stated, fails. Socket 1 sends a presence value, which is buffered for
  sockets 2 and 3; socket 2 then sends one, buffered for sockets 1 and 3. At the flush
  socket 3 receives the value of socket 2 only: the pending value from socket 1 is
  discarded although socket 1 sent nothing newer.
\<close>

theorem presence_lost_to_other_sender:
  "pending_awareness two_senders ''abc'' = [(2, [1, 7]), (3, [1, 7]), (1, [1, 8]), (3, [1, 8])]
   \<and> delivered AwarenessBroadcast 3 (fst (flushAwarenessBuffer sample_library ''abc'' two_senders))
       = [Binary [1, 8]]"
  by (simp add: awareness_delivered two_senders_facts for_dest_def)

text \<open>
  Claim C3, amended. The awareness buffer keeps every entry until the flush; the flush
  sends each destination that is open and has an entry exactly one message, the entry
  buffered last for that destination, whichever socket sent it. Hence three presence
  frames from one sender into an empty buffer leave every open peer with the third
  only, and a pending value is superseded by any later value for the same destination.
\<close>

theorem presence_latest_per_destination:
  "(\<forall>d. delivered AwarenessBroadcast d (fst (flushAwarenessBuffer E room s))
          = (if readyState s d = 1 \<and> for_dest d (pending_awareness s room) \<noteq> []
             then [Binary (last (for_dest d (pending_awareness s room)))] else []))
   \<and> (readVarUint E (createDecoder a1) = Some (messageAwareness, dec1)
       \<and> readVarUint E (createDecoder a2) = Some (messageAwareness, dec2)
       \<and> readVarUint E (createDecoder a3) = Some (messageAwareness, dec3)
       \<and> pending_awareness s (roomName cl) = []
     \<longrightarrow> (\<forall>d. delivered AwarenessBroadcast d
                 (fst (flushAwarenessBuffer E (roomName cl)
                    (snd (message_handler E ws cl a3
                      (snd (message_handler E ws cl a2
                        (snd (message_handler E ws cl a1 s))))))))
               = (if d \<in> set (peers ws cl s) then [Binary a3] else [])))"
proof (intro conjI allI impI)
  fix d
  show "delivered AwarenessBroadcast d (fst (flushAwarenessBuffer E room s))
          = (if readyState s d = 1 \<and> for_dest d (pending_awareness s room) \<noteq> []
             then [Binary (last (for_dest d (pending_awareness s room)))] else [])"
    by (rule awareness_delivered)
next
  fix d
  assume h: "readVarUint E (createDecoder a1) = Some (messageAwareness, dec1)
       \<and> readVarUint E (createDecoder a2) = Some (messageAwareness, dec2)
       \<and> readVarUint E (createDecoder a3) = Some (messageAwareness, dec3)
       \<and> pending_awareness s (roomName cl) = []"
  let ?s1 = "buffer_awareness ws cl a1 s"
  let ?s2 = "buffer_awareness ws cl a2 ?s1"
  let ?s3 = "buffer_awareness ws cl a3 ?s2"
  let ?n = "length (filter (\<lambda>c. c = d) (peers ws cl s))"
  have st: "snd (message_handler E ws cl a3 (snd (message_handler E ws cl a2
              (snd (message_handler E ws cl a1 s))))) = ?s3"
    using h by (simp add: awareness_frame)
  have pend: "pending_awareness ?s3 (roomName cl)
      = map (\<lambda>c. (c, a1)) (peers ws cl s) @ map (\<lambda>c. (c, a2)) (peers ws cl s)
          @ map (\<lambda>c. (c, a3)) (peers ws cl s)"
    using h by (simp add: buffer_awareness_pending buffer_awareness_peers)
  have fd: "for_dest d (pending_awareness ?s3 (roomName cl))
      = replicate ?n a1 @ replicate ?n a2 @ replicate ?n a3"
    unfolding pend by (simp add: for_dest_append for_dest_map_peers)
  have rs: "readyState ?s3 = readyState s"
    by (simp add: buffer_awareness_rs)
  have n: "?n = 0 \<longleftrightarrow> d \<notin> set (peers ws cl s)"
    by (auto simp: filter_empty_conv)
  have op: "d \<in> set (peers ws cl s) \<Longrightarrow> readyState s d = 1" by (simp add: peers_def)
  show "delivered AwarenessBroadcast d
                 (fst (flushAwarenessBuffer E (roomName cl)
                    (snd (message_handler E ws cl a3
                      (snd (message_handler E ws cl a2
                        (snd (message_handler E ws cl a1 s))))))))
               = (if d \<in> set (peers ws cl s) then [Binary a3] else [])"
    unfolding st awareness_delivered fd rs
    using n op by (auto simp: last_three)
qed

theorem presence_latest_per_destination_witness:
  "delivered AwarenessBroadcast 3 (fst (flushAwarenessBuffer sample_library ''abc'' two_senders))
     = [Binary [1, 8]]
   \<and> delivered AwarenessBroadcast 2
       (fst (flushAwarenessBuffer sample_library ''abc''
          (snd (message_handler sample_library 1 abc [1, 3]
            (snd (message_handler sample_library 1 abc [1, 2]
              (snd (message_handler sample_library 1 abc [1, 1] one_room))))))))
     = [Binary [1, 3]]
   \<and> delivered AwarenessBroadcast 1
       (fst (flushAwarenessBuffer sample_library ''abc''
          (snd (message_handler sample_library 1 abc [1, 3]
            (snd (message_handler sample_library 1 abc [1, 2]
              (snd (message_handler sample_library 1 abc [1, 1] one_room))))))))
     = []"
proof -
  have k: "\<And>b. readVarUint sample_library (createDecoder [1, b]) = Some (messageAwareness, \<lparr>arr = [1, b], pos = 1\<rparr>)"
    by (simp add: sample_library_def createDecoder_def messageAwareness_def)
  have p: "pending_awareness one_room (roomName abc) = []" "peers 1 abc one_room = [2]"
    "roomName abc = ''abc''"
    by (simp_all add: pending_awareness_def peers_def abc_def one_room_facts one_room_awareness)
  have q: "pending_awareness two_senders ''abc'' = [(2, [1, 7]), (3, [1, 7]), (1, [1, 8]), (3, [1, 8])]"
    by (simp add: two_senders_facts)
  show ?thesis
    using presence_latest_per_destination [where E = sample_library and room = "''abc''"
        and s = two_senders]
      presence_latest_per_destination [where E = sample_library and ?a1.0 = "[1, 1]"
        and ?a2.0 = "[1, 2]" and ?a3.0 = "[1, 3]" and s = one_room and cl = abc and ws = 1
        and ?dec1.0 = "\<lparr>arr = [1, 1], pos = 1\<rparr>" and ?dec2.0 = "\<lparr>arr = [1, 2], pos = 1\<rparr>"
        and ?dec3.0 = "\<lparr>arr = [1, 3], pos = 1\<rparr>"] k p q
    by (simp add: two_senders_facts for_dest_def)
qed

subsection \<open>The batched server against the immediate one\<close>

lemma sync_step_result:
  "sync_step E cl t dec s
     = map_option (\<lambda>(b, d'). (b, s\<lparr>ydoc := (ydoc s)(doc cl := d')\<rparr>)) (sync_result E t dec (ydoc s (doc cl)))"
  by (simp add: sync_step_def sync_result_def Let_def split: option.splits)

lemma broadcast_old_sends:
  "broadcast_old og ws cl message s = (map (\<lambda>c. Send og c (Binary message)) (peers ws cl s), s)"
proof -
  have "\<And>acts. foldl (\<lambda>(acts, s') client.
              if client \<noteq> ws \<and> readyState s' client = 1 then
                (if send_throws (readyState s' client)
                 then (acts @ [ConsoleError (if og = AwarenessBroadcast
                                             then ''Error broadcasting awareness in room''
                                             else ''Error broadcasting to client in room'')],
                       s'\<lparr>members := (members s')(roomConnections cl :=
                                          set_delete client (members s' (roomConnections cl)))\<rparr>)
                 else (acts @ [Send og client (Binary message)], s'))
              else (acts, s'))
           (acts, s) xs
        = (acts @ map (\<lambda>c. Send og c (Binary message)) (filter (\<lambda>c. c \<noteq> ws \<and> readyState s c = 1) xs), s)"
    for xs
    by (induction xs) (auto simp: send_throws_def CONNECTING_def)
  from this [of "[]" "members s (roomConnections cl)"] show ?thesis
    by (simp add: broadcast_old_def peers_def)
qed

lemma delivered_peers:
  "delivered og d (map (\<lambda>c. Send og c (Binary message)) ps)
     = map Binary (for_dest d (map (\<lambda>c. (c, message)) ps))"
  by (induction ps) (auto simp: delivered_def for_dest_def)

lemma delivered_other:
  "og \<noteq> og' \<Longrightarrow> delivered og d (map (\<lambda>c. Send og' c p) ps) = []"
  by (induction ps) (auto simp: delivered_def)

lemma buffer_update_same:
  "same_room cl so sn \<Longrightarrow> same_room cl so (buffer_update ws cl message sn)"
  by (simp add: same_room_def buffer_update_def setTimeout_def clearTimeout_def Let_def
        split: option.splits)

lemma buffer_awareness_same:
  "same_room cl so sn \<Longrightarrow> same_room cl so (buffer_awareness ws cl message sn)"
  by (simp add: same_room_def buffer_awareness_def setTimeout_def clearTimeout_def Let_def
        split: option.splits)

lemma buffer_awareness_updates:
  "pending_updates (buffer_awareness ws cl message s) room = pending_updates s room"
  by (simp add: pending_updates_def buffer_awareness_def setTimeout_def clearTimeout_def Let_def
        split: option.splits)

lemma same_room_peers: "same_room cl so sn \<Longrightarrow> peers ws cl so = peers ws cl sn"
  by (simp add: same_room_def peers_def)


lemma peers_open: "list_all (\<lambda>e. readyState s (fst e) = 1) (map (\<lambda>c. (c, message)) (peers ws cl s))"
  by (simp add: peers_def list_all_iff)

lemma related_ydoc:
  "related cl so sn \<Longrightarrow>
   related cl (so\<lparr>ydoc := (ydoc so)(doc cl := d')\<rparr>) (sn\<lparr>ydoc := (ydoc sn)(doc cl := d')\<rparr>)"
  by (simp add: related_def same_room_def all_open_def pending_open_def pending_updates_def)

lemma pending_ydoc: "pending_updates (s\<lparr>ydoc := y\<rparr>) room = pending_updates s room"
  by (simp add: pending_updates_def)

lemma buffer_update_rs:
  "readyState (buffer_update ws cl message s) = readyState s"
  "members (buffer_update ws cl message s) = members s"
  "ydoc (buffer_update ws cl message s) = ydoc s"
  by (simp_all add: buffer_update_def setTimeout_def clearTimeout_def Let_def split: option.splits)

lemma buffer_awareness_ms:
  "members (buffer_awareness ws cl message s) = members s"
  "ydoc (buffer_awareness ws cl message s) = ydoc s"
  by (simp_all add: buffer_awareness_def setTimeout_def clearTimeout_def Let_def split: option.splits)

lemma ok_failed:
  "related cl so sn \<Longrightarrow> step_ok cl d sn (processing_failed ws so) (processing_failed ws' sn)"
  by (simp add: step_ok_def processing_failed_def delivered_def)

lemma ok_quiet:
  assumes "related cl so sn"
    and "delivered UpdateBroadcast d ao = []" and "delivered UpdateBroadcast d an = []"
  shows "step_ok cl d sn (ao, so) (an, sn)"
  using assms by (simp add: step_ok_def)

lemma ok_update:
  assumes "related cl so sn"
  shows "step_ok cl d sn (broadcast_old UpdateBroadcast ws cl message so) ([], buffer_update ws cl message sn)"
proof -
  from assms have sr: "same_room cl so sn" and ao: "all_open cl sn" and po: "pending_open cl sn"
    by (simp_all add: related_def)
  have p: "peers ws cl so = peers ws cl sn" using sr by (rule same_room_peers)
  have "related cl so (buffer_update ws cl message sn)"
    using sr ao po peers_open [of sn message ws cl]
    by (simp add: related_def same_room_def all_open_def pending_open_def buffer_update_rs
          buffer_update_pending)
  then show ?thesis
    by (simp add: step_ok_def broadcast_old_sends buffer_update_pending delivered_peers p
          delivered_Nil for_dest_append)
qed

lemma ok_awareness:
  assumes "related cl so sn"
  shows "step_ok cl d sn (broadcast_old AwarenessBroadcast ws cl message so) ([], buffer_awareness ws cl message sn)"
proof -
  from assms have "related cl so (buffer_awareness ws cl message sn)"
    by (simp add: related_def same_room_def all_open_def pending_open_def buffer_awareness_rs
          buffer_awareness_ms buffer_awareness_updates)
  then show ?thesis
    by (simp add: step_ok_def broadcast_old_sends buffer_awareness_updates delivered_other delivered_Nil)
qed

lemma frame_ok:
  assumes rel: "related cl so sn"
  shows "step_ok cl d sn (message_handler_old E ws cl message so) (message_handler E ws cl message sn)"
proof (cases "readVarUint E (createDecoder message)")
  case None
  then show ?thesis using rel by (simp add: message_handler_def message_handler_old_def ok_failed)
next
  case (Some a)
  then obtain t dec where a: "readVarUint E (createDecoder message) = Some (t, dec)" by (cases a) simp
  show ?thesis
  proof (cases "t = messageSync")
    case False
    show ?thesis
    proof (cases "t = messageAwareness")
      case True
      then show ?thesis using a False rel
        by (simp add: message_handler_def message_handler_old_def ok_awareness)
    next
      case na: False
      have "step_ok cl d sn ([ConsoleWarn ''Unknown message type:''], so) ([ConsoleWarn ''Unknown message type:''], sn)"
        by (rule ok_quiet [OF rel]) (simp_all add: delivered_def)
      then show ?thesis using a False na by (simp add: message_handler_def message_handler_old_def)
    qed
  next
    case True
    show ?thesis
    proof (cases "readVarUint E dec")
      case None
      then show ?thesis using a True rel
        by (simp add: message_handler_def message_handler_old_def ok_failed)
    next
      case (Some b)
      then obtain st dec' where b: "readVarUint E dec = Some (st, dec')" by (cases b) simp
      from rel have y: "ydoc so (doc cl) = ydoc sn (doc cl)" and rs: "readyState so = readyState sn"
        by (simp_all add: related_def same_room_def)
      show ?thesis
      proof (cases "sync_result E st dec' (ydoc sn (doc cl))")
        case None
        then show ?thesis using a b True rel y
          by (simp add: message_handler_def message_handler_old_def sync_step_result ok_failed)
      next
        case (Some r)
        then obtain bs d' where r: "sync_result E st dec' (ydoc sn (doc cl)) = Some (bs, d')"
          by (cases r) simp
        let ?so = "so\<lparr>ydoc := (ydoc so)(doc cl := d')\<rparr>"
        let ?sn = "sn\<lparr>ydoc := (ydoc sn)(doc cl := d')\<rparr>"
        have rel': "related cl ?so ?sn" using rel by (rule related_ydoc)
        have pd: "pending_updates ?sn (roomName cl) = pending_updates sn (roomName cl)"
          by (rule pending_ydoc)
        show ?thesis
        proof (cases "st = 2")
          case True
          have "step_ok cl d ?sn (broadcast_old UpdateBroadcast ws cl message ?so)
                  ([], buffer_update ws cl message ?sn)"
            using rel' by (rule ok_update)
          then have "step_ok cl d sn (broadcast_old UpdateBroadcast ws cl message ?so)
                  ([], buffer_update ws cl message ?sn)"
            by (simp add: step_ok_def pending_updates_def)
          then show ?thesis using a b \<open>t = messageSync\<close> True r y
            by (simp add: message_handler_def message_handler_old_def sync_step_result)
        next
          case False
          have q: "\<And>acts. delivered UpdateBroadcast d acts = [] \<Longrightarrow> step_ok cl d sn (acts, ?so) (acts, ?sn)"
            using ok_quiet [OF rel', of d] by (simp add: step_ok_def pending_updates_def)
          have "step_ok cl d sn
                  (if 1 < length bs then
                     (if send_throws (readyState ?so ws)
                      then [ConsoleError ''Error sending sync message in room'']
                      else [Send SyncReply ws (Binary bs)], ?so)
                   else ([], ?so))
                  (if 1 < length bs then
                     (if send_throws (readyState ?sn ws)
                      then [ConsoleError ''Error sending sync message in room'']
                      else [Send SyncReply ws (Binary bs)], ?sn)
                   else ([], ?sn))"
            using rs by (auto intro!: q simp: delivered_def)
          then show ?thesis using a b \<open>t = messageSync\<close> False r y
            by (simp add: message_handler_def message_handler_old_def sync_step_result)
        qed
      qed
    qed
  qed
qed


lemma update_timeout_eq:
  "update_timeout E room s
     = (fst (flushUpdateBuffer E room s),
        (snd (flushUpdateBuffer E room s))\<lparr>flushTimers := (flushTimers (snd (flushUpdateBuffer E room s)))(room := None)\<rparr>)"
  by (simp add: update_timeout_def split_beta)

lemma update_timeout_fst: "fst (update_timeout E room s) = fst (flushUpdateBuffer E room s)"
  by (simp add: update_timeout_eq)

lemma flushUpdateBuffer_keeps:
  "readyState (snd (flushUpdateBuffer E room s)) = readyState s"
  "members (snd (flushUpdateBuffer E room s)) = members s"
  "ydoc (snd (flushUpdateBuffer E room s)) = ydoc s"
  by (simp_all add: flushUpdateBuffer_def split: option.splits)

lemma update_timeout_snd:
  "readyState (snd (update_timeout E room s)) = readyState s"
  "members (snd (update_timeout E room s)) = members s"
  "ydoc (snd (update_timeout E room s)) = ydoc s"
  "pending_updates (snd (update_timeout E room s)) room = []"
  using flush_clears [of E room s]
  by (simp_all add: update_timeout_eq flushUpdateBuffer_keeps pending_updates_def)

lemma for_dest_closed:
  "list_all (\<lambda>e. rs (fst e) = 1) buffer \<Longrightarrow> rs d \<noteq> 1 \<Longrightarrow> for_dest d buffer = []"
  by (auto simp: for_dest_def filter_empty_conv list_all_iff)

lemma flush_ok:
  assumes rel: "related cl so sn"
  shows "step_ok cl d sn ([], so) (update_timeout E (roomName cl) sn)"
proof -
  from rel have po: "list_all (\<lambda>e. readyState sn (fst e) = 1) (pending_updates sn (roomName cl))"
    by (simp add: related_def pending_open_def)
  have dl: "delivered UpdateBroadcast d (fst (update_timeout E (roomName cl) sn))
      = map Binary (for_dest d (pending_updates sn (roomName cl)))"
    using for_dest_closed [OF po, of d] by (simp add: update_timeout_fst flush_delivered)
  have "related cl so (snd (update_timeout E (roomName cl) sn))"
    using rel
    by (simp add: related_def same_room_def all_open_def pending_open_def update_timeout_snd)
  then show ?thesis
    by (simp add: step_ok_def dl update_timeout_snd for_dest_def delivered_Nil)
qed

lemma set_delete_absent: "c \<notin> set xs \<Longrightarrow> set_delete c xs = xs"
  by (induction xs) (auto simp: set_delete_def)

lemma callback_ok:
  assumes rel: "related cl so sn"
  shows "step_ok cl d sn (update_callback_old cl client error so) (update_callback error sn)"
proof -
  from rel have m: "members so (roomConnections cl) = members sn (roomConnections cl)"
    and rs: "readyState so = readyState sn" and ao: "all_open cl sn"
    by (simp_all add: related_def same_room_def)
  have "readyState so client \<noteq> 1 \<Longrightarrow> client \<notin> set (members so (roomConnections cl))"
    using ao by (auto simp: all_open_def list_all_iff m rs)
  then have keep: "readyState so client \<noteq> 1 \<Longrightarrow>
      set_delete client (members so (roomConnections cl)) = members so (roomConnections cl)"
    by (simp add: set_delete_absent)
  have same: "readyState so client \<noteq> 1 \<Longrightarrow>
      so\<lparr>members := (members so)(roomConnections cl :=
            set_delete client (members so (roomConnections cl)))\<rparr> = so"
    by (simp add: keep)
  show ?thesis
    using rel same
    by (simp add: step_ok_def update_callback_old_def update_callback_def delivered_def)
qed

lemma event_ok:
  assumes "related cl so sn"
  shows "step_ok cl d sn (step_immediate E cl e so) (step_batched E cl e sn)"
  using assms
  by (cases e) (simp_all add: step_immediate_def step_batched_def frame_ok flush_ok callback_ok)

lemma run_events_Cons:
  "run_events step (e # es) s
     = (fst (step e s) @ fst (run_events step es (snd (step e s))),
        snd (run_events step es (snd (step e s))))"
  by (simp add: split_beta)

lemma runs_agree:
  assumes "related cl so sn"
  shows "delivered UpdateBroadcast d (fst (run_events (step_batched E cl) (es @ [UpdateFlushDue]) sn))
     = map Binary (for_dest d (pending_updates sn (roomName cl)))
         @ delivered UpdateBroadcast d (fst (run_events (step_immediate E cl) es so))"
  using assms
proof (induction es arbitrary: so sn)
  case Nil
  from flush_ok [OF Nil, of d E] show ?case
    by (simp add: step_ok_def step_batched_def update_timeout_snd for_dest_def delivered_Nil
          split_beta)
next
  case (Cons e es)
  obtain ao so' where o: "step_immediate E cl e so = (ao, so')" by (cases "step_immediate E cl e so")
  obtain an sn' where n: "step_batched E cl e sn = (an, sn')" by (cases "step_batched E cl e sn")
  from event_ok [OF Cons.prems, of d E e] o n
  have rel': "related cl so' sn'"
    and eq: "delivered UpdateBroadcast d an @ map Binary (for_dest d (pending_updates sn' (roomName cl)))
          = map Binary (for_dest d (pending_updates sn (roomName cl))) @ delivered UpdateBroadcast d ao"
    by (simp_all add: step_ok_def)
  from Cons.IH [OF rel'] eq show ?case
    unfolding append_Cons run_events_Cons by (simp add: o n delivered_append)
qed

text \<open>
  Claim C10. Take any sequence of events of one room (inbound frames of any kind from
  any socket, update flushes coming due at any points, send completions) from a state
  in which every member of the room is open and no update is buffered. For every
  destination, the update broadcasts that the batched server has delivered once a final
  flush has run are the same messages, in the same order, as those the earlier server
  delivers on the same events by sending at once.
\<close>

theorem batched_refines_immediate:
  assumes "all_open cl s" and "pending_updates s (roomName cl) = []"
  shows "delivered UpdateBroadcast d (fst (run_events (step_batched E cl) (es @ [UpdateFlushDue]) s))
     = delivered UpdateBroadcast d (fst (run_events (step_immediate E cl) es s))"
proof -
  have "related cl s s" using assms by (simp add: related_def same_room_def pending_open_def)
  from runs_agree [OF this, of d E es] assms(2) show ?thesis by (simp add: for_dest_def)
qed


theorem batched_refines_immediate_witness:
  "all_open abc one_room \<and> pending_updates one_room (roomName abc) = []
   \<and> delivered UpdateBroadcast 2
        (fst (run_events (step_immediate sample_library abc)
               [Frame 1 [0, 2, 1, 9], Frame 2 [0, 2, 1, 5], SendDone 2 False, Frame 1 [0, 2, 1, 6]] one_room))
       = [Binary [0, 2, 1, 9], Binary [0, 2, 1, 6]]
   \<and> delivered UpdateBroadcast 2
        (fst (run_events (step_batched sample_library abc)
               ([Frame 1 [0, 2, 1, 9], Frame 2 [0, 2, 1, 5], SendDone 2 False, Frame 1 [0, 2, 1, 6]]
                  @ [UpdateFlushDue]) one_room))
       = [Binary [0, 2, 1, 9], Binary [0, 2, 1, 6]]"
proof -
  have a: "all_open abc one_room"
    by (simp add: all_open_def abc_def one_room_facts)
  have b: "pending_updates one_room (roomName abc) = []"
    by (simp add: pending_updates_def one_room_facts)
  have c: "delivered UpdateBroadcast 2
        (fst (run_events (step_immediate sample_library abc)
               [Frame 1 [0, 2, 1, 9], Frame 2 [0, 2, 1, 5], SendDone 2 False, Frame 1 [0, 2, 1, 6]] one_room))
       = [Binary [0, 2, 1, 9], Binary [0, 2, 1, 6]]"
    by (simp add: step_immediate_def message_handler_old_def sync_step_def broadcast_old_sends
          peers_def update_callback_old_def one_room_facts abc_def sample_library_def
          createDecoder_def messageSync_def delivered_def)
  show ?thesis
    using batched_refines_immediate [OF a b, of 2 sample_library
        "[Frame 1 [0, 2, 1, 9], Frame 2 [0, 2, 1, 5], SendDone 2 False, Frame 1 [0, 2, 1, 6]]"] a b c
    by simp
qed

subsection \<open>The debounced update flush\<close>

lemma untouched_refl: "untouched room s s"
  by (simp add: untouched_def)

lemma untouched_trans: "untouched room s s1 \<Longrightarrow> untouched room s1 s2 \<Longrightarrow> untouched room s s2"
  by (simp add: untouched_def)

lemma armed_tid:
  assumes "timers_ok room s" and "j \<in> set (tasks s)" and "run j \<noteq> FlushUpdates room"
    and "k \<in> set (armed room s)"
  shows "tid k \<noteq> tid j"
proof
  assume e: "tid k = tid j"
  from assms(4) have k: "k \<in> set (tasks s)" "run k = FlushUpdates room" by (simp_all add: armed_def)
  from assms(1) have "distinct (map tid (tasks s))" by (simp add: timers_ok_def recorded_before_def)
  then have "inj_on tid (set (tasks s))" by (simp add: distinct_map)
  with k(1) assms(2) e have "k = j" by (auto dest: inj_onD)
  with k(2) assms(3) show False by simp
qed

lemma filter_filter_same:
  "(\<And>x. x \<in> set xs \<Longrightarrow> P x \<Longrightarrow> Q x) \<Longrightarrow> filter P (filter Q xs) = filter P xs"
  by (induction xs) auto

lemma filter_map_same:
  "(\<And>x. x \<in> set xs \<Longrightarrow> P x \<Longrightarrow> f x = x) \<Longrightarrow> (\<And>x. x \<in> set xs \<Longrightarrow> \<not> P x \<Longrightarrow> \<not> P (f x))
   \<Longrightarrow> filter P (map f xs) = filter P xs"
  by (induction xs) auto

lemma fire_eq:
  "fire E k s =
     (if list_ex (\<lambda>j. tid j = tid k) (tasks s)
      then ([(run k, fst (run_callback E k (dequeued k s)))], snd (run_callback E k (dequeued k s)))
      else ([], s))"
  by (simp add: fire_def dequeued_def Let_def split_beta)

lemma clear_ok:
  assumes ok: "timers_ok room s" and t: "\<And>k. k \<in> set (armed room s) \<Longrightarrow> tid k \<noteq> t"
  shows "timers_ok room (clearTimeout t s) \<and> untouched room s (clearTimeout t s)"
proof -
  have a: "armed room (clearTimeout t s) = armed room s"
    using t by (auto simp: armed_def clearTimeout_def intro!: filter_cong)
  show ?thesis
    using ok unfolding timers_ok_def recorded_before_def untouched_def a
    by (auto simp: clearTimeout_def distinct_map_filter list_all_iff split: option.splits)
qed

lemma rearm_ok:
  assumes ok: "timers_ok room s" and t: "\<And>k. k \<in> set (armed room s) \<Longrightarrow> tid k \<noteq> t"
  shows "timers_ok room (s\<lparr>tasks := map (\<lambda>j. if tid j = t then j\<lparr>due := due j + p\<rparr> else j) (tasks s)\<rparr>)
       \<and> untouched room s (s\<lparr>tasks := map (\<lambda>j. if tid j = t then j\<lparr>due := due j + p\<rparr> else j) (tasks s)\<rparr>)"
proof -
  let ?f = "\<lambda>j. if tid j = t then j\<lparr>due := due j + p\<rparr> else j"
  have a: "armed room (s\<lparr>tasks := map ?f (tasks s)\<rparr>) = armed room s"
    using t by (auto simp: armed_def intro!: filter_map_same split: if_splits)
  have m: "map (tid \<circ> ?f) (tasks s) = map tid (tasks s)" by (rule map_cong) auto
  show ?thesis
    using ok unfolding timers_ok_def recorded_before_def untouched_def a
    by (auto simp: m list_all_iff split: option.splits)
qed

lemma dequeued_ok:
  assumes "timers_ok room s" and "\<And>k. k \<in> set (armed room s) \<Longrightarrow> tid k \<noteq> tid j"
  shows "timers_ok room (dequeued j s) \<and> untouched room s (dequeued j s)"
  using clear_ok [OF assms] rearm_ok [OF assms]
  by (cases "period j") (simp_all add: dequeued_def)


lemma awareness_timeout_eq:
  "awareness_timeout E room s
     = (fst (flushAwarenessBuffer E room s),
        (snd (flushAwarenessBuffer E room s))\<lparr>awarenessFlushTimers :=
           (awarenessFlushTimers (snd (flushAwarenessBuffer E room s)))(room := None)\<rparr>)"
  by (simp add: awareness_timeout_def split_beta)

lemma flushUpdateBuffer_snd:
  "snd (flushUpdateBuffer E r s) = s \<or> snd (flushUpdateBuffer E r s) = s\<lparr>updateBuffers := (updateBuffers s)(r \<mapsto> [])\<rparr>"
  by (simp add: flushUpdateBuffer_def split: option.splits)

lemma flushAwarenessBuffer_snd:
  "snd (flushAwarenessBuffer E r s) = s
   \<or> snd (flushAwarenessBuffer E r s) = s\<lparr>awarenessBuffers := (awarenessBuffers s)(r \<mapsto> [])\<rparr>"
  by (simp add: flushAwarenessBuffer_def split: option.splits)

lemma update_timeout_other:
  assumes "r \<noteq> room" and "timers_ok room s"
  shows "timers_ok room (snd (update_timeout E r s)) \<and> untouched room s (snd (update_timeout E r s))
       \<and> tasks (snd (update_timeout E r s)) = tasks s"
  using flushUpdateBuffer_snd [of E r s] assms
  by (auto simp: update_timeout_eq timers_ok_def recorded_before_def untouched_def armed_def split: option.splits)

lemma awareness_timeout_other:
  assumes "timers_ok room s"
  shows "timers_ok room (snd (awareness_timeout E r s)) \<and> untouched room s (snd (awareness_timeout E r s))
       \<and> tasks (snd (awareness_timeout E r s)) = tasks s"
  using flushAwarenessBuffer_snd [of E r s] assms
  by (auto simp: awareness_timeout_eq timers_ok_def recorded_before_def untouched_def armed_def split: option.splits)

lemma heartbeat_tick_other:
  assumes ok: "timers_ok room s" and t: "\<And>k. k \<in> set (armed room s) \<Longrightarrow> tid k \<noteq> h"
  shows "timers_ok room (snd (heartbeat_tick c h s)) \<and> untouched room s (snd (heartbeat_tick c h s))"
proof (cases "readyState s c = 1")
  case True
  then show ?thesis using ok by (simp add: heartbeat_tick_def untouched_refl)
next
  case False
  from clear_ok [OF ok t]
  have "timers_ok room (clearTimeout h s)" "untouched room s (clearTimeout h s)" by simp_all
  then have "timers_ok room ((clearTimeout h s)\<lparr>heartbeats := (heartbeats s)(c := None)\<rparr>)
      \<and> untouched room s ((clearTimeout h s)\<lparr>heartbeats := (heartbeats s)(c := None)\<rparr>)"
    by (simp add: timers_ok_def recorded_before_def untouched_def armed_def clearTimeout_def split: option.splits)
  then show ?thesis using False by (simp add: heartbeat_tick_def clearInterval_def)
qed

lemma run_callback_other:
  assumes ok: "timers_ok room s" and nr: "run j \<noteq> FlushUpdates room"
    and t: "\<And>k. k \<in> set (armed room s) \<Longrightarrow> tid k \<noteq> tid j"
  shows "timers_ok room (snd (run_callback E j s)) \<and> untouched room s (snd (run_callback E j s))"
proof (cases "run j")
  case (FlushUpdates r)
  with nr have "r \<noteq> room" by simp
  from update_timeout_other [OF this ok] FlushUpdates show ?thesis by (simp add: run_callback_def)
next
  case (FlushAwareness r)
  from awareness_timeout_other [OF ok] FlushAwareness show ?thesis by (simp add: run_callback_def)
next
  case (Heartbeat c)
  from heartbeat_tick_other [OF ok t] Heartbeat show ?thesis by (simp add: run_callback_def)
qed

lemma tasks_run_callback:
  "filter (\<lambda>k. tid k \<noteq> tid j) (tasks (snd (run_callback E j s))) = filter (\<lambda>k. tid k \<noteq> tid j) (tasks s)"
proof (cases "run j")
  case (FlushUpdates r)
  then show ?thesis using flushUpdateBuffer_snd [of E r s]
    by (auto simp: run_callback_def update_timeout_eq)
next
  case (FlushAwareness r)
  then show ?thesis using flushAwarenessBuffer_snd [of E r s]
    by (auto simp: run_callback_def awareness_timeout_eq)
next
  case (Heartbeat c)
  then show ?thesis
    by (auto simp: run_callback_def heartbeat_tick_def clearInterval_def clearTimeout_def intro: filter_cong)
qed

lemma tasks_dequeued:
  "filter (\<lambda>k. tid k \<noteq> tid j) (tasks (dequeued j s)) = filter (\<lambda>k. tid k \<noteq> tid j) (tasks s)"
proof (cases "period j")
  case None
  then show ?thesis by (auto simp: dequeued_def clearTimeout_def intro: filter_cong)
next
  case (Some p)
  have "filter (\<lambda>k. tid k \<noteq> tid j) (map (\<lambda>i. if tid i = tid j then i\<lparr>due := due i + p\<rparr> else i) (tasks s))
      = filter (\<lambda>k. tid k \<noteq> tid j) (tasks s)"
    by (rule filter_map_same) auto
  then show ?thesis using Some by (simp add: dequeued_def)
qed

lemma tasks_fire:
  "filter (\<lambda>k. tid k \<noteq> tid j) (tasks (snd (fire E j s))) = filter (\<lambda>k. tid k \<noteq> tid j) (tasks s)"
  by (simp add: fire_eq tasks_run_callback tasks_dequeued)

lemma fire_other:
  assumes ok: "timers_ok room s" and j: "j \<in> set (tasks s)" and nr: "run j \<noteq> FlushUpdates room"
  shows "flushes room (fst (fire E j s)) = []
       \<and> timers_ok room (snd (fire E j s)) \<and> untouched room s (snd (fire E j s))"
proof -
  have t: "\<And>k. k \<in> set (armed room s) \<Longrightarrow> tid k \<noteq> tid j"
    using armed_tid [OF ok j nr] by blast
  from dequeued_ok [OF ok t]
  have d: "timers_ok room (dequeued j s)" "untouched room s (dequeued j s)" by simp_all
  from d(2) have a: "armed room (dequeued j s) = armed room s" by (simp add: untouched_def)
  from run_callback_other [OF d(1) nr, of E] t a
  have r: "timers_ok room (snd (run_callback E j (dequeued j s)))"
    "untouched room (dequeued j s) (snd (run_callback E j (dequeued j s)))" by simp_all
  from j have ex: "list_ex (\<lambda>i. tid i = tid j) (tasks s)" by (auto simp: list_ex_iff)
  show ?thesis
    using ex nr r(1) untouched_trans [OF d(2) r(2)] by (simp add: fire_eq flushes_def)
qed

lemma flush_fst_cong:
  "updateBuffers s' room = updateBuffers s room \<Longrightarrow> readyState s' = readyState s \<Longrightarrow>
   fst (flushUpdateBuffer E room s') = fst (flushUpdateBuffer E room s)"
  by (simp add: flushUpdateBuffer_fst pending_updates_def)

lemma fire_armed:
  assumes ok: "timers_ok room s" and j: "j \<in> set (armed room s)"
  shows "fst (fire E j s) = [(FlushUpdates room, fst (flushUpdateBuffer E room s))]
       \<and> timers_ok room (snd (fire E j s))
       \<and> armed room (snd (fire E j s)) = []
       \<and> pending_updates (snd (fire E j s)) room = []
       \<and> flushTimers (snd (fire E j s)) room = None
       \<and> readyState (snd (fire E j s)) = readyState s \<and> now (snd (fire E j s)) = now s
       \<and> ydoc (snd (fire E j s)) = ydoc s \<and> members (snd (fire E j s)) = members s"
proof -
  from j have jt: "j \<in> set (tasks s)" and rj: "run j = FlushUpdates room" by (simp_all add: armed_def)
  from ok j have pj: "period j = None" and fj: "flushTimers s room = Some (tid j)"
    by (auto simp: timers_ok_def recorded_before_def list_all_iff)
  from ok fj have all: "\<And>k. k \<in> set (armed room s) \<Longrightarrow> tid k = tid j"
    by (auto simp: timers_ok_def recorded_before_def list_all_iff)
  let ?s1 = "clearTimeout (tid j) s"
  have d: "dequeued j s = ?s1" using pj by (simp add: dequeued_def)
  have a1: "armed room ?s1 = []"
    using all by (auto simp: armed_def clearTimeout_def filter_empty_conv)
  have ok1: "timers_ok room ?s1"
    using ok a1 unfolding timers_ok_def recorded_before_def
    by (auto simp: clearTimeout_def distinct_map_filter list_all_iff split: option.splits)
  have f: "fst (flushUpdateBuffer E room ?s1) = fst (flushUpdateBuffer E room s)"
    by (rule flush_fst_cong) (simp_all add: clearTimeout_def)
  let ?s2 = "snd (update_timeout E room ?s1)"
  have t2: "tasks ?s2 = tasks ?s1" "next_timer ?s2 = next_timer ?s1"
    using flushUpdateBuffer_snd [of E room ?s1] by (auto simp: update_timeout_eq)
  have a2: "armed room ?s2 = []" using a1 by (simp add: armed_def t2)
  have rest: "pending_updates ?s2 room = []" "flushTimers ?s2 room = None"
    "readyState ?s2 = readyState s" "now ?s2 = now s" "ydoc ?s2 = ydoc s" "members ?s2 = members s"
    using flushUpdateBuffer_snd [of E room ?s1] flush_clears [of E room ?s1]
    by (auto simp: update_timeout_eq pending_updates_def clearTimeout_def)
  have ok2: "timers_ok room ?s2" using ok1 a2 rest(2) by (simp add: timers_ok_def recorded_before_def t2)
  from jt have ex: "list_ex (\<lambda>i. tid i = tid j) (tasks s)" by (auto simp: list_ex_iff)
  show ?thesis
    using ex rj d f ok2 a2 rest
    by (simp add: fire_eq run_callback_def update_timeout_fst)
qed


lemma fire_all_Cons:
  "fire_all E (k # ks) s
     = (fst (fire E k s) @ fst (fire_all E ks (snd (fire E k s))),
        snd (fire_all E ks (snd (fire E k s))))"
  by (simp add: split_beta)

lemma flushes_append: "flushes room (xs @ ys) = flushes room xs @ flushes room ys"
  by (simp add: flushes_def)

lemma still_queued:
  assumes "k \<in> set (tasks s)" and "tid k \<noteq> tid j"
  shows "k \<in> set (tasks (snd (fire E j s)))"
proof -
  from assms have "k \<in> set (filter (\<lambda>k. tid k \<noteq> tid j) (tasks s))" by simp
  then have "k \<in> set (filter (\<lambda>k. tid k \<noteq> tid j) (tasks (snd (fire E j s))))"
    by (simp only: tasks_fire)
  then show ?thesis by simp
qed

lemma rest_queued:
  assumes "set (j # ks) \<subseteq> set (tasks s)" and "distinct (map tid (j # ks))"
  shows "set ks \<subseteq> set (tasks (snd (fire E j s)))"
proof
  fix k assume k: "k \<in> set ks"
  with assms(2) have "tid k \<noteq> tid j" by (auto simp: image_iff)
  moreover from k assms(1) have "k \<in> set (tasks s)" by auto
  ultimately show "k \<in> set (tasks (snd (fire E j s)))" by (rule still_queued [rotated])
qed

lemma fire_all_quiet:
  assumes "timers_ok room s" and "set ks \<subseteq> set (tasks s)" and "distinct (map tid ks)"
    and "\<And>k. k \<in> set ks \<Longrightarrow> run k \<noteq> FlushUpdates room"
  shows "flushes room (fst (fire_all E ks s)) = []
       \<and> timers_ok room (snd (fire_all E ks s)) \<and> untouched room s (snd (fire_all E ks s))"
  using assms
proof (induction ks arbitrary: s)
  case Nil
  then show ?case by (simp add: flushes_def untouched_refl)
next
  case (Cons j ks)
  from Cons.prems have j: "j \<in> set (tasks s)" and nr: "run j \<noteq> FlushUpdates room" by auto
  from fire_other [OF Cons.prems(1) j nr, of E]
  have f: "flushes room (fst (fire E j s)) = []" "timers_ok room (snd (fire E j s))"
    "untouched room s (snd (fire E j s))" by simp_all
  have sub: "set ks \<subseteq> set (tasks (snd (fire E j s)))"
    using Cons.prems(2,3) by (rule rest_queued)
  from Cons.IH [OF f(2) sub] Cons.prems(3,4)
  have r: "flushes room (fst (fire_all E ks (snd (fire E j s)))) = []"
    "timers_ok room (snd (fire_all E ks (snd (fire E j s))))"
    "untouched room (snd (fire E j s)) (snd (fire_all E ks (snd (fire E j s))))" by simp_all
  show ?case
    unfolding fire_all_Cons using f(1) r(1,2) untouched_trans [OF f(3) r(3)]
    by (simp add: flushes_append)
qed

lemma flushed_untouched:
  "flushed room s s1 \<Longrightarrow> timers_ok room s2 \<Longrightarrow> untouched room s1 s2 \<Longrightarrow> flushed room s s2"
  by (simp add: flushed_def untouched_def pending_updates_def)

lemma untouched_flushed:
  "untouched room s s1 \<Longrightarrow> flushed room s1 s2 \<Longrightarrow> flushed room s s2"
  by (simp add: flushed_def untouched_def)

lemma fire_all_flush:
  assumes "timers_ok room s" and "set ks \<subseteq> set (tasks s)" and "distinct (map tid ks)"
    and "j \<in> set ks" and "run j = FlushUpdates room"
  shows "flushes room (fst (fire_all E ks s)) = [(FlushUpdates room, fst (flushUpdateBuffer E room s))]
       \<and> flushed room s (snd (fire_all E ks s))"
  using assms
proof (induction ks arbitrary: s)
  case Nil
  then show ?case by simp
next
  case (Cons h ks)
  from Cons.prems have h: "h \<in> set (tasks s)" by simp
  have sub: "set ks \<subseteq> set (tasks (snd (fire E h s)))"
    using Cons.prems(2,3) by (rule rest_queued)
  show ?case
  proof (cases "run h = FlushUpdates room")
    case True
    with h have ha: "h \<in> set (armed room s)" by (simp add: armed_def)
    from fire_armed [OF Cons.prems(1) ha, of E]
    have f: "fst (fire E h s) = [(FlushUpdates room, fst (flushUpdateBuffer E room s))]"
      and fl: "flushed room s (snd (fire E h s))"
      by (simp_all add: flushed_def)
    from fl have ok1: "timers_ok room (snd (fire E h s))" and a1: "armed room (snd (fire E h s)) = []"
      by (simp_all add: flushed_def)
    have none: "\<And>k. k \<in> set ks \<Longrightarrow> run k \<noteq> FlushUpdates room"
    proof
      fix k assume "k \<in> set ks" and "run k = FlushUpdates room"
      with sub have "k \<in> set (armed room (snd (fire E h s)))" by (auto simp: armed_def)
      with a1 show False by simp
    qed
    from fire_all_quiet [OF ok1 sub _ none, of E] Cons.prems(3)
    have q: "flushes room (fst (fire_all E ks (snd (fire E h s)))) = []"
      "timers_ok room (snd (fire_all E ks (snd (fire E h s))))"
      "untouched room (snd (fire E h s)) (snd (fire_all E ks (snd (fire E h s))))" by simp_all
    show ?thesis
      unfolding fire_all_Cons using f q(1) flushed_untouched [OF fl q(2) q(3)]
      by (simp add: flushes_append flushes_def)
  next
    case False
    from fire_other [OF Cons.prems(1) h False, of E]
    have f: "flushes room (fst (fire E h s)) = []" "timers_ok room (snd (fire E h s))"
      "untouched room s (snd (fire E h s))" by simp_all
    from False Cons.prems(4,5) have jk: "j \<in> set ks" by auto
    from Cons.IH [OF f(2) sub _ jk Cons.prems(5)] Cons.prems(3)
    have r: "flushes room (fst (fire_all E ks (snd (fire E h s))))
        = [(FlushUpdates room, fst (flushUpdateBuffer E room (snd (fire E h s))))]"
      "flushed room (snd (fire E h s)) (snd (fire_all E ks (snd (fire E h s))))" by simp_all
    have c: "fst (flushUpdateBuffer E room (snd (fire E h s))) = fst (flushUpdateBuffer E room s)"
      using f(3) by (intro flush_fst_cong) (simp_all add: untouched_def)
    show ?thesis
      unfolding fire_all_Cons using f(1) r c untouched_flushed [OF f(3) r(2)]
      by (simp add: flushes_append)
  qed
qed

lemma due_tasks:
  assumes "timers_ok room s"
  shows "set (filter (\<lambda>k. due k \<le> now s) (tasks s)) \<subseteq> set (tasks s)"
    and "distinct (map tid (filter (\<lambda>k. due k \<le> now s) (tasks s)))"
  using assms by (auto simp: timers_ok_def recorded_before_def distinct_map_filter)

lemma run_due_quiet:
  assumes ok: "timers_ok room s" and late: "\<And>k. k \<in> set (armed room s) \<Longrightarrow> now s < due k"
  shows "flushes room (fst (run_due E s)) = []
       \<and> timers_ok room (snd (run_due E s)) \<and> untouched room s (snd (run_due E s))"
  unfolding run_due_def
proof (rule fire_all_quiet [OF ok due_tasks [OF ok]])
  fix k assume k: "k \<in> set (filter (\<lambda>k. due k \<le> now s) (tasks s))"
  show "run k \<noteq> FlushUpdates room"
  proof
    assume "run k = FlushUpdates room"
    with k have "k \<in> set (armed room s)" by (simp add: armed_def)
    from late [OF this] k show False by simp
  qed
qed

lemma run_due_flush:
  assumes ok: "timers_ok room s" and j: "j \<in> set (armed room s)" and d: "due j \<le> now s"
  shows "flushes room (fst (run_due E s)) = [(FlushUpdates room, fst (flushUpdateBuffer E room s))]
       \<and> flushed room s (snd (run_due E s))"
  unfolding run_due_def
  using j d by (intro fire_all_flush [OF ok due_tasks [OF ok], of j]) (simp_all add: armed_def)

lemma elapse_Suc:
  "elapse E (Suc n) s
     = (fst (run_due E (s\<lparr>now := Suc (now s)\<rparr>)) @ fst (elapse E n (snd (run_due E (s\<lparr>now := Suc (now s)\<rparr>)))),
        snd (elapse E n (snd (run_due E (s\<lparr>now := Suc (now s)\<rparr>)))))"
  by (simp add: split_beta)

lemma elapse_snoc:
  "elapse E (Suc n) s
     = (fst (elapse E n s) @ fst (run_due E ((snd (elapse E n s))\<lparr>now := Suc (now (snd (elapse E n s)))\<rparr>)),
        snd (run_due E ((snd (elapse E n s))\<lparr>now := Suc (now (snd (elapse E n s)))\<rparr>)))"
proof (induction n arbitrary: s)
  case 0
  show ?case by (simp add: split_beta)
next
  case (Suc n)
  let ?s1 = "snd (run_due E (s\<lparr>now := Suc (now s)\<rparr>))"
  have a: "elapse E (Suc (Suc n)) s
      = (fst (run_due E (s\<lparr>now := Suc (now s)\<rparr>)) @ fst (elapse E (Suc n) ?s1),
         snd (elapse E (Suc n) ?s1))"
    by (rule elapse_Suc)
  have b: "fst (elapse E (Suc n) s) = fst (run_due E (s\<lparr>now := Suc (now s)\<rparr>)) @ fst (elapse E n ?s1)"
    "snd (elapse E (Suc n) s) = snd (elapse E n ?s1)"
    by (simp_all only: elapse_Suc fst_conv snd_conv)
  show ?case unfolding a b by (simp only: Suc.IH [of ?s1] fst_conv snd_conv append_assoc)
qed

lemma tick_ok:
  "timers_ok room (s\<lparr>now := t\<rparr>) = timers_ok room s" "armed room (s\<lparr>now := t\<rparr>) = armed room s"
  by (simp_all add: timers_ok_def recorded_before_def armed_def split: option.splits)

lemma elapse_quiet:
  assumes "timers_ok room s" and "\<And>k. k \<in> set (armed room s) \<Longrightarrow> now s + n < due k"
  shows "flushes room (fst (elapse E n s)) = []
       \<and> timers_ok room (snd (elapse E n s)) \<and> waited room n s (snd (elapse E n s))"
  using assms
proof (induction n arbitrary: s)
  case 0
  then show ?case by (simp add: flushes_def waited_def)
next
  case (Suc n)
  let ?s0 = "s\<lparr>now := Suc (now s)\<rparr>"
  let ?s1 = "snd (run_due E ?s0)"
  have ok0: "timers_ok room ?s0" using Suc.prems(1) by (simp add: tick_ok)
  have late: "\<And>k. k \<in> set (armed room ?s0) \<Longrightarrow> now ?s0 < due k"
    using Suc.prems(2) by (fastforce simp: tick_ok)
  from run_due_quiet [OF ok0 late, of E]
  have q: "flushes room (fst (run_due E ?s0)) = []" "timers_ok room ?s1" "untouched room ?s0 ?s1"
    by simp_all
  have late1: "\<And>k. k \<in> set (armed room ?s1) \<Longrightarrow> now ?s1 + n < due k"
    using Suc.prems(2) q(3) by (fastforce simp: untouched_def tick_ok)
  from Suc.IH [OF q(2) late1]
  have r: "flushes room (fst (elapse E n ?s1)) = []" "timers_ok room (snd (elapse E n ?s1))"
    "waited room n ?s1 (snd (elapse E n ?s1))" by simp_all
  have "waited room (Suc n) s (snd (elapse E n ?s1))"
    using q(3) r(3) by (simp add: waited_def untouched_def tick_ok)
  then show ?case unfolding elapse_Suc using q(1) r(1,2) by (simp add: flushes_append)
qed

lemma waited_flush:
  "waited room n s s' \<Longrightarrow> fst (flushUpdateBuffer E room s') = fst (flushUpdateBuffer E room s)"
  by (intro flush_fst_cong) (simp_all add: waited_def)

lemma elapse_flush:
  assumes "timers_ok room s" and "armed room s \<noteq> []"
    and "\<And>k. k \<in> set (armed room s) \<Longrightarrow> due k = now s + Suc n"
  shows "flushes room (fst (elapse E (Suc n) s)) = [(FlushUpdates room, fst (flushUpdateBuffer E room s))]
       \<and> flushed room s (snd (elapse E (Suc n) s))"
proof -
  from assms(2) obtain j where j: "j \<in> set (armed room s)" by (cases "armed room s") auto
  have late: "\<And>k. k \<in> set (armed room s) \<Longrightarrow> now s + n < due k" using assms(3) by simp
  from elapse_quiet [OF assms(1) late, of E]
  have q: "flushes room (fst (elapse E n s)) = []" "timers_ok room (snd (elapse E n s))"
    "waited room n s (snd (elapse E n s))" by simp_all
  let ?s1 = "snd (elapse E n s)"
  let ?s2 = "?s1\<lparr>now := Suc (now ?s1)\<rparr>"
  have ok2: "timers_ok room ?s2" using q(2) by (simp add: tick_ok)
  have j2: "j \<in> set (armed room ?s2)" using j q(3) by (simp add: tick_ok waited_def)
  have d2: "due j \<le> now ?s2" using assms(3) [OF j] q(3) by (simp add: waited_def)
  from run_due_flush [OF ok2 j2 d2, of E]
  have f: "flushes room (fst (run_due E ?s2)) = [(FlushUpdates room, fst (flushUpdateBuffer E room ?s2))]"
    "flushed room ?s2 (snd (run_due E ?s2))" by simp_all
  have c: "fst (flushUpdateBuffer E room ?s2) = fst (flushUpdateBuffer E room s)"
    using q(3) by (intro flush_fst_cong) (simp_all add: waited_def)
  have fl: "flushed room s (snd (run_due E ?s2))"
    using f(2) q(3) by (simp add: flushed_def waited_def)
  have split: "elapse E (Suc n) s
      = (fst (elapse E n s) @ fst (run_due E ?s2), snd (run_due E ?s2))"
    by (rule elapse_snoc)
  show ?thesis unfolding split using q(1) f(1) c fl by (simp add: flushes_append)
qed

lemma is_updateD:
  assumes "is_update E cl message s"
  obtains dec dec' d' where "readVarUint E (createDecoder message) = Some (messageSync, dec)"
    and "readVarUint E dec = Some (2, dec')" and "readUpdate E dec' (ydoc s (doc cl)) = Some d'"
  using assms by (auto simp: is_update_def split: option.splits)

lemma update_accepted:
  assumes "is_update E cl message s"
  obtains d' where "message_handler E ws cl message s
      = ([], buffer_update ws cl message (s\<lparr>ydoc := (ydoc s)(doc cl := d')\<rparr>))"
proof -
  from assms obtain dec dec' d' where a: "readVarUint E (createDecoder message) = Some (messageSync, dec)"
    "readVarUint E dec = Some (2, dec')" and b: "readUpdate E dec' (ydoc s (doc cl)) = Some d'"
    by (rule is_updateD)
  from update_frame [OF a, of ws cl s] b
  have "message_handler E ws cl message s
      = ([], buffer_update ws cl message (s\<lparr>ydoc := (ydoc s)(doc cl := d')\<rparr>))" by simp
  then show ?thesis by (rule that)
qed

lemma buffer_update_timers:
  "tasks (buffer_update ws cl message s)
     = filter (\<lambda>k. Some (tid k) \<noteq> flushTimers s (roomName cl)) (tasks s)
         @ [\<lparr>tid = next_timer s, due = now s + FLUSH_INTERVAL, period = None, run = FlushUpdates (roomName cl)\<rparr>]"
  "next_timer (buffer_update ws cl message s) = Suc (next_timer s)"
  "flushTimers (buffer_update ws cl message s) (roomName cl) = Some (next_timer s)"
  "now (buffer_update ws cl message s) = now s"
  by (auto simp: buffer_update_def setTimeout_def clearTimeout_def Let_def split: option.splits
        intro: filter_cong)

lemma buffer_update_rearms:
  assumes ok: "timers_ok (roomName cl) s"
  shows "timers_ok (roomName cl) (buffer_update ws cl message s)
       \<and> armed (roomName cl) (buffer_update ws cl message s)
           = [\<lparr>tid = next_timer s, due = now s + FLUSH_INTERVAL, period = None, run = FlushUpdates (roomName cl)\<rparr>]
       \<and> cancelled (flushTimers s (roomName cl)) (buffer_update ws cl message s)"
proof -
  let ?room = "roomName cl"
  let ?s' = "buffer_update ws cl message s"
  let ?new = "\<lparr>tid = next_timer s, due = now s + FLUSH_INTERVAL, period = None, run = FlushUpdates ?room\<rparr>"
  let ?old = "filter (\<lambda>k. Some (tid k) \<noteq> flushTimers s ?room) (tasks s)"
  from ok have d: "distinct (map tid (tasks s))" and lt: "\<And>k. k \<in> set (tasks s) \<Longrightarrow> tid k < next_timer s"
    and ar: "\<And>k. k \<in> set (armed ?room s) \<Longrightarrow> flushTimers s ?room = Some (tid k)"
    and ho: "\<And>t. flushTimers s ?room = Some t \<Longrightarrow> t < next_timer s"
    by (auto simp: timers_ok_def recorded_before_def list_all_iff split: option.splits)
  have none: "filter (\<lambda>k. run k = FlushUpdates ?room) ?old = []"
    unfolding filter_empty_conv using ar by (auto simp: armed_def)
  have a: "armed ?room ?s' = [?new]"
    unfolding armed_def buffer_update_timers filter_append none by simp
  have fresh: "next_timer s \<notin> tid ` set ?old"
    using lt by fastforce
  have dd: "distinct (map tid (?old @ [?new]))"
    using d fresh by (simp add: distinct_map_filter)
  have ok': "timers_ok ?room ?s'"
    unfolding timers_ok_def recorded_before_def a using dd lt
    by (auto simp: buffer_update_timers list_all_iff less_Suc_eq)
  have c: "cancelled (flushTimers s ?room) ?s'"
    using ho by (auto simp: cancelled_def buffer_update_timers list_ex_iff split: option.splits)
  from ok' a c show ?thesis by simp
qed

lemma timers_ok_ydoc: "timers_ok room (s\<lparr>ydoc := y\<rparr>) = timers_ok room s"
  by (simp add: timers_ok_def recorded_before_def armed_def)

lemma peers_ydoc: "peers ws cl (s\<lparr>ydoc := y\<rparr>) = peers ws cl s"
  by (simp add: peers_def)

lemma update_rearms:
  assumes ok: "timers_ok (roomName cl) s" and up: "is_update E cl message s"
  shows "timers_ok (roomName cl) (snd (message_handler E ws cl message s))
       \<and> armed (roomName cl) (snd (message_handler E ws cl message s))
           = [\<lparr>tid = next_timer s, due = now s + FLUSH_INTERVAL, period = None, run = FlushUpdates (roomName cl)\<rparr>]
       \<and> cancelled (flushTimers s (roomName cl)) (snd (message_handler E ws cl message s))
       \<and> now (snd (message_handler E ws cl message s)) = now s
       \<and> pending_updates (snd (message_handler E ws cl message s)) (roomName cl)
           = pending_updates s (roomName cl) @ map (\<lambda>c. (c, message)) (peers ws cl s)"
proof -
  from up obtain d' where m: "message_handler E ws cl message s
      = ([], buffer_update ws cl message (s\<lparr>ydoc := (ydoc s)(doc cl := d')\<rparr>))"
    by (rule update_accepted)
  let ?s0 = "s\<lparr>ydoc := (ydoc s)(doc cl := d')\<rparr>"
  have ok0: "timers_ok (roomName cl) ?s0" using ok by (simp add: timers_ok_ydoc)
  from buffer_update_rearms [OF ok0, of ws message] show ?thesis
    by (simp add: m buffer_update_timers buffer_update_pending peers_ydoc pending_ydoc)
qed

lemma typing_Cons:
  "typing E cl ((ws, message, pause) # rest) s
     = (fst (elapse E pause (snd (message_handler E ws cl message s)))
          @ fst (typing E cl rest (snd (elapse E pause (snd (message_handler E ws cl message s))))),
        snd (typing E cl rest (snd (elapse E pause (snd (message_handler E ws cl message s))))))"
  by (simp add: split_beta)

lemma waited_pending: "waited room n s s' \<Longrightarrow> pending_updates s' room = pending_updates s room"
  by (simp add: waited_def pending_updates_def)

lemma typing_quiet:
  assumes "timers_ok (roomName cl) s" and "rapid_updates E cl frames s"
  shows "flushes (roomName cl) (fst (typing E cl frames s)) = []
       \<and> timers_ok (roomName cl) (snd (typing E cl frames s))
       \<and> pending_updates (snd (typing E cl frames s)) (roomName cl)
           = pending_updates s (roomName cl) @ queued E cl frames s"
  using assms
proof (induction frames arbitrary: s)
  case Nil
  then show ?case by (simp add: flushes_def)
next
  case (Cons f frames)
  obtain ws message pause where f: "f = (ws, message, pause)" by (cases f)
  let ?s1 = "snd (message_handler E ws cl message s)"
  let ?s2 = "snd (elapse E pause ?s1)"
  from Cons.prems(2) have up: "is_update E cl message s" and short: "pause < FLUSH_INTERVAL"
    and rest: "rapid_updates E cl frames ?s2" by (simp_all add: f)
  from update_rearms [OF Cons.prems(1) up, of ws]
  have h: "timers_ok (roomName cl) ?s1"
    "armed (roomName cl) ?s1
       = [\<lparr>tid = next_timer s, due = now s + FLUSH_INTERVAL, period = None, run = FlushUpdates (roomName cl)\<rparr>]"
    "now ?s1 = now s"
    "pending_updates ?s1 (roomName cl) = pending_updates s (roomName cl) @ map (\<lambda>c. (c, message)) (peers ws cl s)"
    by simp_all
  have late: "\<And>k. k \<in> set (armed (roomName cl) ?s1) \<Longrightarrow> now ?s1 + pause < due k"
    using short by (simp add: h(2,3))
  from elapse_quiet [OF h(1) late, of E]
  have q: "flushes (roomName cl) (fst (elapse E pause ?s1)) = []" "timers_ok (roomName cl) ?s2"
    "waited (roomName cl) pause ?s1 ?s2" by simp_all
  from Cons.IH [OF q(2) rest]
  have r: "flushes (roomName cl) (fst (typing E cl frames ?s2)) = []"
    "timers_ok (roomName cl) (snd (typing E cl frames ?s2))"
    "pending_updates (snd (typing E cl frames ?s2)) (roomName cl)
       = pending_updates ?s2 (roomName cl) @ queued E cl frames ?s2" by simp_all
  show ?case
    unfolding f typing_Cons using q(1) r h(4) waited_pending [OF q(3)]
    by (simp add: flushes_append)
qed

lemma one_room_timers:
  "tasks one_room = [\<lparr>tid = 0, due = 30000, period = Some 30000, run = Heartbeat (Suc 0)\<rparr>,
     \<lparr>tid = Suc 0, due = 30000, period = Some 30000, run = Heartbeat 2\<rparr>]"
  "next_timer one_room = 2" "flushTimers one_room = Map.empty"
  by (simp_all add: one_room_def connection_handler_def roomMatch_def line_terminator_def
        getOrCreateDoc_def getOrCreateConnections_def setInterval_def set_add_def startup_def
        sample_library_def OPEN_def HEARTBEAT_INTERVAL_def Let_def)

text \<open>
  The timer queue is well formed at start-up and stays so when sockets are admitted,
  close or fail.
\<close>

lemma timers_ok_startup: "timers_ok room (startup E)"
  by (simp add: timers_ok_def recorded_before_def armed_def startup_def)

lemma timers_ok_connection:
  assumes "timers_ok room s"
  shows "timers_ok room (snd (connection_handler E ws pathname s))"
proof (cases "roomMatch pathname")
  case None
  then show ?thesis using assms by (simp add: connection_handler_def)
next
  case (Some r)
  from assms have f: "next_timer s \<notin> tid ` set (tasks s)"
    by (fastforce simp: timers_ok_def list_all_iff)
  show ?thesis
    using assms Some f
    by (auto simp: connection_handler_def getOrCreateDoc_def getOrCreateConnections_def
          setInterval_def Let_def timers_ok_def recorded_before_def armed_def list_all_iff
          less_Suc_eq split: option.splits)
qed

lemma timers_ok_filter:
  assumes "timers_ok room s" and "tasks s' = filter P (tasks s)" and "next_timer s' = next_timer s"
    and "flushTimers s' room = flushTimers s room"
  shows "timers_ok room s'"
  using assms
  by (auto simp: timers_ok_def recorded_before_def armed_def list_all_iff distinct_map_filter)

lemma timers_ok_drop:
  assumes "timers_ok room s"
  shows "timers_ok room (drop_connection ws cl s)"
proof (cases "heartbeats s ws")
  case None
  then show ?thesis using assms
    by (simp add: drop_connection_def Let_def timers_ok_def recorded_before_def armed_def)
next
  case (Some h)
  show ?thesis
    by (rule timers_ok_filter [OF assms, of _ "\<lambda>k. tid k \<noteq> h"])
      (simp_all add: drop_connection_def Let_def Some clearInterval_def clearTimeout_def)
qed

lemma timers_ok_error:
  "timers_ok room s \<Longrightarrow> timers_ok room (snd (error_handler E ws cl s))"
  by (simp add: error_handler_def timers_ok_drop)

lemma timers_ok_cleanup:
  assumes ok: "timers_ok room s"
  shows "timers_ok room (cleanup_room r s)"
proof (cases "r = room")
  case False
  show ?thesis
    by (rule timers_ok_filter [OF ok, of _ "\<lambda>k. Some (tid k) \<noteq> flushTimers s r
          \<and> Some (tid k) \<noteq> awarenessFlushTimers s r"])
      (use False in \<open>auto simp: tasks_cleanup_room cleanup_room_def clearTimeout_def Let_def
          split: option.splits\<close>)
next
  case True
  have t: "tasks (cleanup_room room s)
      = filter (\<lambda>k. Some (tid k) \<noteq> flushTimers s room \<and> Some (tid k) \<noteq> awarenessFlushTimers s room) (tasks s)"
    by (rule tasks_cleanup_room)
  have n: "next_timer (cleanup_room room s) = next_timer s" "flushTimers (cleanup_room room s) room = None"
    by (simp_all add: cleanup_room_def clearTimeout_def Let_def split: option.splits)
  from ok have "\<And>k. k \<in> set (armed room s) \<Longrightarrow> flushTimers s room = Some (tid k)"
    by (simp add: timers_ok_def list_all_iff)
  then have a: "armed room (cleanup_room room s) = []"
    unfolding armed_def t by (auto simp: filter_empty_conv armed_def)
  show ?thesis
    using ok a unfolding True timers_ok_def n recorded_before_def
    by (auto simp: t distinct_map_filter list_all_iff)
qed

lemma timers_ok_close:
  "timers_ok room s \<Longrightarrow> timers_ok room (snd (close_handler E ws cl s))"
  by (simp add: close_handler_def Let_def timers_ok_drop timers_ok_cleanup)

text \<open>No listener and no timer callback changes the state of a socket.\<close>

lemma rs_run_callback: "readyState (snd (run_callback E k s)) = readyState s"
proof (cases "run k")
  case (FlushUpdates r)
  then show ?thesis by (simp add: run_callback_def update_timeout_snd)
next
  case (FlushAwareness r)
  then show ?thesis using flushAwarenessBuffer_snd [of E r s]
    by (auto simp: run_callback_def awareness_timeout_eq)
next
  case (Heartbeat c)
  then show ?thesis
    by (simp add: run_callback_def heartbeat_tick_def clearInterval_def clearTimeout_def)
qed

lemma rs_dequeued: "readyState (dequeued k s) = readyState s"
  by (simp add: dequeued_def clearTimeout_def split: option.splits)

lemma rs_fire: "readyState (snd (fire E k s)) = readyState s"
  by (simp add: fire_eq rs_run_callback rs_dequeued)

lemma rs_fire_all: "readyState (snd (fire_all E ks s)) = readyState s"
  by (induction ks arbitrary: s) (simp_all add: split_beta rs_fire)

lemma rs_elapse: "readyState (snd (elapse E n s)) = readyState s"
  by (induction n arbitrary: s) (simp_all add: split_beta run_due_def rs_fire_all)

lemma rs_message_handler: "readyState (snd (message_handler E ws cl message s)) = readyState s"
  by (auto simp: message_handler_def processing_failed_def sync_step_result buffer_update_rs
        buffer_awareness_rs split: option.splits)

lemma rs_typing: "readyState (snd (typing E cl frames s)) = readyState s"
proof (induction frames arbitrary: s)
  case Nil
  show ?case by simp
next
  case (Cons f frames)
  obtain ws message pause where f: "f = (ws, message, pause)" by (cases f)
  show ?case unfolding f typing_Cons by (simp add: Cons rs_elapse rs_message_handler)
qed

lemma queued_open: "list_all (\<lambda>e. readyState s (fst e) = 1) (queued E cl frames s)"
proof (induction frames arbitrary: s)
  case Nil
  show ?case by simp
next
  case (Cons f frames)
  obtain ws message pause where f: "f = (ws, message, pause)" by (cases f)
  from Cons [of "snd (elapse E pause (snd (message_handler E ws cl message s)))"]
  have "list_all (\<lambda>e. readyState s (fst e) = 1)
      (queued E cl frames (snd (elapse E pause (snd (message_handler E ws cl message s)))))"
    by (simp add: rs_elapse rs_message_handler)
  then show ?case using peers_open [of s message ws cl] by (simp add: f)
qed

lemma all_delivered:
  assumes "list_all (\<lambda>e. readyState s (fst e) = 1) (pending_updates s room)"
  shows "delivered UpdateBroadcast d (fst (flushUpdateBuffer E room s))
     = map Binary (for_dest d (pending_updates s room))"
  using for_dest_closed [OF assms, of d] by (simp add: flush_delivered)

text \<open>
  Claim C7. \<^verbatim>\<open>FLUSH_INTERVAL\<close> is 50. Consider a burst of update frames in a room, each
  followed by a pause shorter than 50 ms in which nothing else happens, and then one
  more update frame. No update flush of the room runs during the burst: every accepted
  update cancels the flush timer recorded for the room and arms a new one, due 50 ms
  later, which is then the room's only pending flush. All entries queued by the burst
  and by the last frame are still buffered. If less than 50 ms pass after the last
  frame, no flush of the room has run; when 50 ms have passed, exactly one has run, on
  the buffer as the last frame left it, delivering to every open destination its
  buffered messages in order. If the entries buffered before the burst were for open
  sockets, every buffered entry is delivered. Afterwards the buffer is empty and no
  flush is pending.
\<close>

theorem debounced_flush:
  fixes E :: "'d library" and s :: "'d server" and cl :: closure
    and frames :: "(conn \<times> bytes \<times> nat) list" and ws :: conn and message :: bytes
  defines "s1 \<equiv> snd (typing E cl frames s)"
  defines "s2 \<equiv> snd (message_handler E ws cl message s1)"
  defines "s3 \<equiv> snd (elapse E FLUSH_INTERVAL s2)"
  assumes ok: "timers_ok (roomName cl) s"
    and burst: "rapid_updates E cl frames s"
    and final: "is_update E cl message (snd (typing E cl frames s))"
  shows "FLUSH_INTERVAL = 50
    \<and> flushes (roomName cl) (fst (typing E cl frames s)) = []
    \<and> cancelled (flushTimers s1 (roomName cl)) s2
    \<and> armed (roomName cl) s2
        = [\<lparr>tid = next_timer s1, due = now s1 + FLUSH_INTERVAL, period = None, run = FlushUpdates (roomName cl)\<rparr>]
    \<and> pending_updates s2 (roomName cl)
        = pending_updates s (roomName cl) @ queued E cl frames s @ map (\<lambda>c. (c, message)) (peers ws cl s1)
    \<and> (\<forall>n < FLUSH_INTERVAL. flushes (roomName cl) (fst (elapse E n s2)) = [])
    \<and> flushes (roomName cl) (fst (elapse E FLUSH_INTERVAL s2))
        = [(FlushUpdates (roomName cl), fst (flushUpdateBuffer E (roomName cl) s2))]
    \<and> (\<forall>d. delivered UpdateBroadcast d (fst (flushUpdateBuffer E (roomName cl) s2))
          = (if readyState s2 d = 1 then map Binary (for_dest d (pending_updates s2 (roomName cl))) else []))
    \<and> (pending_open cl s \<longrightarrow>
         (\<forall>d. delivered UpdateBroadcast d (fst (flushUpdateBuffer E (roomName cl) s2))
                = map Binary (for_dest d (pending_updates s2 (roomName cl)))))
    \<and> pending_updates s3 (roomName cl) = [] \<and> armed (roomName cl) s3 = []
    \<and> flushTimers s3 (roomName cl) = None"
proof -
  let ?room = "roomName cl"
  from typing_quiet [OF ok burst]
  have t: "flushes ?room (fst (typing E cl frames s)) = []" "timers_ok ?room s1"
    "pending_updates s1 ?room = pending_updates s ?room @ queued E cl frames s"
    by (simp_all add: s1_def)
  from final have up: "is_update E cl message s1" by (simp add: s1_def)
  from update_rearms [OF t(2) up, of ws]
  have h: "timers_ok ?room s2" "cancelled (flushTimers s1 ?room) s2"
    "armed ?room s2 = [\<lparr>tid = next_timer s1, due = now s1 + FLUSH_INTERVAL, period = None, run = FlushUpdates ?room\<rparr>]"
    "now s2 = now s1"
    "pending_updates s2 ?room = pending_updates s1 ?room @ map (\<lambda>c. (c, message)) (peers ws cl s1)"
    by (simp_all add: s2_def)
  have before: "\<And>n. n < FLUSH_INTERVAL \<Longrightarrow> flushes ?room (fst (elapse E n s2)) = []"
  proof -
    fix n assume n: "n < FLUSH_INTERVAL"
    have "\<And>k. k \<in> set (armed ?room s2) \<Longrightarrow> now s2 + n < due k" using n by (simp add: h(3,4))
    from elapse_quiet [OF h(1) this, of E] show "flushes ?room (fst (elapse E n s2)) = []" by simp
  qed
  have fi: "FLUSH_INTERVAL = Suc 49" by (simp add: FLUSH_INTERVAL_def)
  have ne: "armed ?room s2 \<noteq> []" by (simp add: h(3))
  have at: "\<And>k. k \<in> set (armed ?room s2) \<Longrightarrow> due k = now s2 + Suc 49" by (simp add: h(3,4) fi)
  from elapse_flush [OF h(1) ne at, of E]
  have fl: "flushes ?room (fst (elapse E FLUSH_INTERVAL s2))
      = [(FlushUpdates ?room, fst (flushUpdateBuffer E ?room s2))]"
    "flushed ?room s2 s3" by (simp_all add: fi s3_def)
  from fl(2) have after: "pending_updates s3 ?room = []" "armed ?room s3 = []" "flushTimers s3 ?room = None"
    by (simp_all add: flushed_def)
  have fifty: "FLUSH_INTERVAL = 50" by (simp add: FLUSH_INTERVAL_def)
  have rs: "readyState s1 = readyState s" "readyState s2 = readyState s"
    by (simp_all add: s1_def s2_def rs_typing rs_message_handler)
  have every: "pending_open cl s \<Longrightarrow>
      delivered UpdateBroadcast d (fst (flushUpdateBuffer E ?room s2))
        = map Binary (for_dest d (pending_updates s2 ?room))" for d
  proof -
    assume "pending_open cl s"
    then have "list_all (\<lambda>e. readyState s2 (fst e) = 1) (pending_updates s2 ?room)"
      using queued_open [of s E cl frames] peers_open [of s1 message ws cl]
      by (simp add: pending_open_def h(5) t(3) rs)
    then show ?thesis by (rule all_delivered)
  qed
  show ?thesis
    using fifty t(1) h(2,3) h(5) t(3) before fl(1) flush_delivered [of _ E ?room s2] every after
    by simp
qed

theorem debounced_flush_witness:
  "timers_ok ''abc'' one_room
   \<and> rapid_updates sample_library abc [(1, [0, 2, 1, 9], 3), (2, [0, 2, 1, 5], 2)] one_room
   \<and> flushes ''abc'' (fst (typing sample_library abc [(1, [0, 2, 1, 9], 3), (2, [0, 2, 1, 5], 2)] one_room)) = []
   \<and> flushes ''abc''
        (fst (elapse sample_library 49
           (snd (message_handler sample_library 1 abc [0, 2, 1, 6]
              (snd (typing sample_library abc [(1, [0, 2, 1, 9], 3), (2, [0, 2, 1, 5], 2)] one_room))))))
       = []
   \<and> flushes ''abc''
        (fst (elapse sample_library FLUSH_INTERVAL
           (snd (message_handler sample_library 1 abc [0, 2, 1, 6]
              (snd (typing sample_library abc [(1, [0, 2, 1, 9], 3), (2, [0, 2, 1, 5], 2)] one_room))))))
       = [(FlushUpdates ''abc'',
           fst (flushUpdateBuffer sample_library ''abc''
             (snd (message_handler sample_library 1 abc [0, 2, 1, 6]
                (snd (typing sample_library abc [(1, [0, 2, 1, 9], 3), (2, [0, 2, 1, 5], 2)] one_room))))))]
   \<and> pending_updates
        (snd (elapse sample_library FLUSH_INTERVAL
           (snd (message_handler sample_library 1 abc [0, 2, 1, 6]
              (snd (typing sample_library abc [(1, [0, 2, 1, 9], 3), (2, [0, 2, 1, 5], 2)] one_room))))))
        ''abc'' = []
   \<and> pending_open abc one_room
   \<and> delivered UpdateBroadcast 2
        (fst (flushUpdateBuffer sample_library ''abc''
           (snd (message_handler sample_library 1 abc [0, 2, 1, 6]
              (snd (typing sample_library abc [(1, [0, 2, 1, 9], 3), (2, [0, 2, 1, 5], 2)] one_room))))))
       = map Binary (for_dest 2 (pending_updates
           (snd (message_handler sample_library 1 abc [0, 2, 1, 6]
              (snd (typing sample_library abc [(1, [0, 2, 1, 9], 3), (2, [0, 2, 1, 5], 2)] one_room))))
           ''abc''))"
proof -
  have r: "roomName abc = ''abc''" by (simp add: abc_def)
  have e: "pending_open abc one_room"
    by (simp add: pending_open_def pending_updates_def one_room_facts)
  have a: "timers_ok (roomName abc) one_room"
    by (simp add: timers_ok_def recorded_before_def armed_def one_room_timers r)
  have b: "rapid_updates sample_library abc [(1, [0, 2, 1, 9], 3), (2, [0, 2, 1, 5], 2)] one_room"
    by (simp add: is_update_def sample_library_def createDecoder_def messageSync_def FLUSH_INTERVAL_def)
  have c: "is_update sample_library abc [0, 2, 1, 6]
      (snd (typing sample_library abc [(1, [0, 2, 1, 9], 3), (2, [0, 2, 1, 5], 2)] one_room))"
    by (simp add: is_update_def sample_library_def createDecoder_def messageSync_def del: typing.simps)
  have d: "(49::nat) < FLUSH_INTERVAL" by (simp add: FLUSH_INTERVAL_def)
  note th = debounced_flush [OF a b c, of 1, unfolded r]
  from th d have quiet: "flushes ''abc''
        (fst (elapse sample_library 49
           (snd (message_handler sample_library 1 abc [0, 2, 1, 6]
              (snd (typing sample_library abc [(1, [0, 2, 1, 9], 3), (2, [0, 2, 1, 5], 2)] one_room))))))
       = []"
    by blast
  from th e have every: "delivered UpdateBroadcast 2
        (fst (flushUpdateBuffer sample_library ''abc''
           (snd (message_handler sample_library 1 abc [0, 2, 1, 6]
              (snd (typing sample_library abc [(1, [0, 2, 1, 9], 3), (2, [0, 2, 1, 5], 2)] one_room))))))
       = map Binary (for_dest 2 (pending_updates
           (snd (message_handler sample_library 1 abc [0, 2, 1, 6]
              (snd (typing sample_library abc [(1, [0, 2, 1, 9], 3), (2, [0, 2, 1, 5], 2)] one_room))))
           ''abc''))"
    by blast
  from th a [unfolded r] b e quiet every show ?thesis by blast
qed

end
